theory Spec2Isabelle
  imports Main
begin

section \<open>Types, variables and errors\<close>

text \<open>
  \<open>LyraType\<close> and \<open>VariableIdentifier\<close> come from \<open>lyra.core\<close>, which is not among the
  sources; the code under study only uses a type as a dictionary key, tests it for
  the three classes below, and reads the attribute \<open>typ\<close> of a variable (\<open>var_typ\<close> below).
\<close>

datatype LyraType = BooleanLyraType | IntegerLyraType | FloatLyraType | OtherLyraType string

record VariableIdentifier =
  var_typ :: LyraType
  var_name :: string

text \<open>
  Every exception the modelled code can raise is a value of this type; a fallible
  operation returns \<open>error + 'a\<close> with \<open>Inl\<close> for the raised exception. A \<open>KeyError\<close>
  carries the missing key (\<open>key.args[0]\<close>), the \<open>ValueError\<close> of the store constructor
  the key named in its message.
\<close>

datatype key = Type_key LyraType | Variable_key VariableIdentifier

datatype error =
    NotImplementedError
  | AssertionError
  | AttributeError
  | TypeError
  | IndexError
  | KeyError key
  | ValueError_missing_lattice key
  | ValueError_already_present

section \<open>The numeric-range lattice, a parameter\<close>

text \<open>
  \<open>IntervalLattice\<close> (module \<open>lyra.abstract_domains.numerical.interval_domain\<close>) is
  not among the sources. The range component of an assumption is therefore an arbitrary
  type \<open>'r\<close>, and the public lattice operations of that type which the modelled code
  calls are passed in as a record of functions.
\<close>

record 'r range_ops =
  range_bottom :: "'r \<Rightarrow> 'r"
  range_top :: "'r \<Rightarrow> 'r"
  range_is_bottom :: "'r \<Rightarrow> bool"
  range_is_top :: "'r \<Rightarrow> bool"
  range_less_equal :: "'r \<Rightarrow> 'r \<Rightarrow> bool"
  range_join :: "'r \<Rightarrow> 'r \<Rightarrow> 'r"

section \<open>TypeLattice\<close>

text \<open>\<open>TypeLattice.Status\<close>, an \<open>IntEnum\<close>: \<open>Any = 3\<close>, \<open>Float = 2\<close>, \<open>Int = 1\<close>, \<open>Bool = 0\<close>.\<close>

datatype Status = Status_Bool | Status_Int | Status_Float | Status_Any

fun Status_value :: "Status \<Rightarrow> nat" where
  "Status_value Status_Any = 3"
| "Status_value Status_Float = 2"
| "Status_value Status_Int = 1"
| "Status_value Status_Bool = 0"

definition Status_max :: "Status \<Rightarrow> Status \<Rightarrow> Status" where
  "Status_max x y = (if Status_value y > Status_value x then y else x)"

text \<open>
  Modelled from the spec: \<open>BottomMixin\<close> of \<open>lattice.py\<close>, which is not among the
  sources. It gives a lattice a distinguished bottom element: \<open>bottom()\<close> forces the
  receiver to bottom in place, \<open>is_bottom()\<close> is the predicate. The model is a flag
  beside the element's own state (\<open>_element\<close>).
\<close>

record TypeLattice =
  bottom_flag :: bool
  element_raw :: Status

definition TypeLattice_init :: "Status \<Rightarrow> TypeLattice" where
  "TypeLattice_init type_status = \<lparr>bottom_flag = False, element_raw = type_status\<rparr>"

definition TypeLattice_is_bottom :: "TypeLattice \<Rightarrow> bool" where
  "TypeLattice_is_bottom self = bottom_flag self"

definition TypeLattice_bottom :: "TypeLattice \<Rightarrow> TypeLattice" where
  "TypeLattice_bottom self = self\<lparr>bottom_flag := True\<rparr>"

text \<open>The property \<open>element\<close>: \<open>None\<close> on bottom.\<close>

definition TypeLattice_element :: "TypeLattice \<Rightarrow> Status option" where
  "TypeLattice_element self =
     (if TypeLattice_is_bottom self then None else Some (element_raw self))"

definition TypeLattice_top :: "TypeLattice \<Rightarrow> TypeLattice" where
  "TypeLattice_top self = TypeLattice_init Status_Any"

definition TypeLattice_is_top :: "TypeLattice \<Rightarrow> bool" where
  "TypeLattice_is_top self = (TypeLattice_element self = Some Status_Any)"

text \<open>
  The hooks compare and combine \<open>self.element\<close> and \<open>other.element\<close>; on a bottom
  element that is \<open>None\<close>, which Python does not order against an enum member.
\<close>

definition TypeLattice__less_equal :: "TypeLattice \<Rightarrow> TypeLattice \<Rightarrow> error + bool" where
  "TypeLattice__less_equal self other =
     (case (TypeLattice_element self, TypeLattice_element other) of
        (Some x, Some y) \<Rightarrow> Inr (Status_value x \<le> Status_value y)
      | _ \<Rightarrow> Inl TypeError)"

definition TypeLattice__join :: "TypeLattice \<Rightarrow> TypeLattice \<Rightarrow> error + TypeLattice" where
  "TypeLattice__join self other =
     (case (TypeLattice_element self, TypeLattice_element other) of
        (Some x, Some y) \<Rightarrow> Inr (TypeLattice_init (Status_max x y))
      | _ \<Rightarrow> Inl TypeError)"

text \<open>
  Modelled from the spec: the public operations \<open>less_equal\<close> and \<open>join\<close> of the base
  class \<open>Lattice\<close> (\<open>lattice.py\<close>, not among the sources). They first short-circuit
  the trivial cases (bottom is below anything, anything is below top; the join with
  bottom or top has the closed form \<open>\<bottom>.join(a) = a\<close>, \<open>a.join(\<bottom>) = a\<close>,
  \<open>\<top>.join(a) = \<top>\<close>, \<open>a.join(\<top>) = \<top>\<close>) and otherwise delegate to the hook of
  the concrete domain.
\<close>

definition TypeLattice_less_equal :: "TypeLattice \<Rightarrow> TypeLattice \<Rightarrow> error + bool" where
  "TypeLattice_less_equal self other =
     (if TypeLattice_is_bottom self \<or> TypeLattice_is_top other then Inr True
      else if TypeLattice_is_bottom other \<or> TypeLattice_is_top self then Inr False
      else TypeLattice__less_equal self other)"

definition TypeLattice_join :: "TypeLattice \<Rightarrow> TypeLattice \<Rightarrow> error + TypeLattice" where
  "TypeLattice_join self other =
     (if TypeLattice_is_bottom self \<or> TypeLattice_is_top other then Inr other
      else if TypeLattice_is_bottom other \<or> TypeLattice_is_top self then Inr self
      else TypeLattice__join self other)"

section \<open>AssumptionLattice\<close>

text \<open>
  The dictionary \<open>_assumptions\<close> has exactly the two keys \<open>type_assmp\<close> and
  \<open>range_assmp\<close>, inserted in this order.
\<close>

record 'r AssumptionLattice =
  type_assumption :: TypeLattice
  range_assumption :: 'r

text \<open>
  \<open>__init__(type_element=None, range_element=None)\<close>: an argument left out defaults to
  the top of its lattice; \<open>range_default\<close> stands for the absent \<open>IntervalLattice()\<close>.
\<close>

definition AssumptionLattice_init ::
  "'r range_ops \<Rightarrow> 'r \<Rightarrow> TypeLattice option \<Rightarrow> 'r option \<Rightarrow> 'r AssumptionLattice" where
  "AssumptionLattice_init ops range_default type_element range_element =
     \<lparr>type_assumption =
        (case type_element of
           None \<Rightarrow> TypeLattice_top (TypeLattice_init Status_Any)
         | Some t \<Rightarrow> t),
      range_assumption =
        (case range_element of None \<Rightarrow> range_top ops range_default | Some r \<Rightarrow> r)\<rparr>"

text \<open>\<open>self.assumptions.values()\<close>: the two fields, of different classes, in order.\<close>

datatype 'r assumption = Type_assmp TypeLattice | Range_assmp 'r

definition assumptions_values :: "'r AssumptionLattice \<Rightarrow> 'r assumption list" where
  "assumptions_values self = [Type_assmp (type_assumption self), Range_assmp (range_assumption self)]"

fun assumption_is_bottom :: "'r range_ops \<Rightarrow> 'r assumption \<Rightarrow> bool" where
  "assumption_is_bottom ops (Type_assmp t) = TypeLattice_is_bottom t"
| "assumption_is_bottom ops (Range_assmp r) = range_is_bottom ops r"

fun assumption_is_top :: "'r range_ops \<Rightarrow> 'r assumption \<Rightarrow> bool" where
  "assumption_is_top ops (Type_assmp t) = TypeLattice_is_top t"
| "assumption_is_top ops (Range_assmp r) = range_is_top ops r"

text \<open>The loop of \<open>is_bottom\<close>: return \<open>True\<close> at the first bottom field.\<close>

fun is_bottom_loop :: "'r range_ops \<Rightarrow> 'r assumption list \<Rightarrow> bool" where
  "is_bottom_loop ops [] = False"
| "is_bottom_loop ops (assumption # rest) =
     (if assumption_is_bottom ops assumption then True else is_bottom_loop ops rest)"

definition AssumptionLattice_is_bottom :: "'r range_ops \<Rightarrow> 'r AssumptionLattice \<Rightarrow> bool" where
  "AssumptionLattice_is_bottom ops self = is_bottom_loop ops (assumptions_values self)"

text \<open>The loop of \<open>is_top\<close>: return \<open>False\<close> at the first field that is not top.\<close>

fun is_top_loop :: "'r range_ops \<Rightarrow> 'r assumption list \<Rightarrow> bool" where
  "is_top_loop ops [] = True"
| "is_top_loop ops (assumption # rest) =
     (if \<not> assumption_is_top ops assumption then False else is_top_loop ops rest)"

definition AssumptionLattice_is_top :: "'r range_ops \<Rightarrow> 'r AssumptionLattice \<Rightarrow> bool" where
  "AssumptionLattice_is_top ops self = is_top_loop ops (assumptions_values self)"

definition AssumptionLattice_bottom :: "'r range_ops \<Rightarrow> 'r AssumptionLattice \<Rightarrow> 'r AssumptionLattice" where
  "AssumptionLattice_bottom ops self =
     \<lparr>type_assumption = TypeLattice_bottom (type_assumption self),
      range_assumption = range_bottom ops (range_assumption self)\<rparr>"

definition AssumptionLattice_top :: "'r range_ops \<Rightarrow> 'r AssumptionLattice \<Rightarrow> 'r AssumptionLattice" where
  "AssumptionLattice_top ops self =
     \<lparr>type_assumption = TypeLattice_top (type_assumption self),
      range_assumption = range_top ops (range_assumption self)\<rparr>"

text \<open>
  \<open>_less_equal\<close>: Python's \<open>and\<close> does not evaluate the range comparison when the type
  comparison is false.
\<close>

definition AssumptionLattice__less_equal ::
  "'r range_ops \<Rightarrow> 'r AssumptionLattice \<Rightarrow> 'r AssumptionLattice \<Rightarrow> error + bool" where
  "AssumptionLattice__less_equal ops self other =
     (case TypeLattice_less_equal (type_assumption self) (type_assumption other) of
        Inl e \<Rightarrow> Inl e
      | Inr False \<Rightarrow> Inr False
      | Inr True \<Rightarrow> Inr (range_less_equal ops (range_assumption self) (range_assumption other)))"

definition AssumptionLattice__join ::
  "'r range_ops \<Rightarrow> 'r AssumptionLattice \<Rightarrow> 'r AssumptionLattice \<Rightarrow> error + 'r AssumptionLattice" where
  "AssumptionLattice__join ops self other =
     (case TypeLattice_join (type_assumption self) (type_assumption other) of
        Inl e \<Rightarrow> Inl e
      | Inr t \<Rightarrow>
          Inr \<lparr>type_assumption = t,
               range_assumption = range_join ops (range_assumption self) (range_assumption other)\<rparr>)"

text \<open>
  Modelled from the spec: the public \<open>less_equal\<close> and \<open>join\<close> inherited from
  \<open>Lattice\<close> (\<open>lattice.py\<close>, not among the sources), with the same short-circuits as
  for \<open>TypeLattice\<close> above.
\<close>

definition AssumptionLattice_less_equal ::
  "'r range_ops \<Rightarrow> 'r AssumptionLattice \<Rightarrow> 'r AssumptionLattice \<Rightarrow> error + bool" where
  "AssumptionLattice_less_equal ops self other =
     (if AssumptionLattice_is_bottom ops self \<or> AssumptionLattice_is_top ops other then Inr True
      else if AssumptionLattice_is_bottom ops other \<or> AssumptionLattice_is_top ops self then Inr False
      else AssumptionLattice__less_equal ops self other)"

definition AssumptionLattice_join ::
  "'r range_ops \<Rightarrow> 'r AssumptionLattice \<Rightarrow> 'r AssumptionLattice \<Rightarrow> error + 'r AssumptionLattice" where
  "AssumptionLattice_join ops self other =
     (if AssumptionLattice_is_bottom ops self \<or> AssumptionLattice_is_top ops other then Inr other
      else if AssumptionLattice_is_bottom ops other \<or> AssumptionLattice_is_top ops self then Inr self
      else AssumptionLattice__join ops self other)"

section \<open>InputAssumptionLattice\<close>

text \<open>
  Modelled from the spec: \<open>BoundedLattice\<close> of \<open>lattice.py\<close>, which is not among the
  sources. It gives a lattice distinguished bottom and top elements: \<open>bottom()\<close> and
  \<open>top()\<close> force the receiver to bottom and top in place and return it,
  \<open>is_bottom()\<close> and \<open>is_top()\<close> are the predicates. The model is a kind beside the
  element's own state; a constructed element is neither (\<open>DEFAULT\<close>).
\<close>

datatype Kind = TOP | DEFAULT | BOTTOM

text \<open>
  An element of the list \<open>_assmps\<close> is an \<open>AssumptionLattice\<close> (a leaf) or an
  \<open>InputAssumptionLattice\<close> (nested); \<open>iterations\<close> is an integer or \<open>None\<close>.
\<close>

datatype 'r assmp =
    Leaf (the_leaf: "'r AssumptionLattice")
  | Nested (the_nested: "'r InputAssumptionLattice")
and 'r InputAssumptionLattice =
  IAL (kind: Kind) (iterations: "int option") (assmps_raw: "'r assmp list")
      (is_loop: bool) (condition: "string option")

text \<open>
  \<open>__init__(iterations=1, assmps=None)\<close>. The first argument of the model is the value
  bound to \<open>iterations\<close> (\<open>Some 1\<close> when the argument is left out), the second is
  \<open>None\<close> when \<open>assmps\<close> is left out or \<open>None\<close>.
\<close>

definition InputAssumptionLattice_init ::
  "int option \<Rightarrow> 'r assmp list option \<Rightarrow> 'r InputAssumptionLattice" where
  "InputAssumptionLattice_init iters assmps_arg =
     IAL DEFAULT iters (case assmps_arg of None \<Rightarrow> [] | Some xs \<Rightarrow> xs) False None"

definition InputAssumptionLattice_is_bottom :: "'r InputAssumptionLattice \<Rightarrow> bool" where
  "InputAssumptionLattice_is_bottom self = (kind self = BOTTOM)"

definition InputAssumptionLattice_is_top :: "'r InputAssumptionLattice \<Rightarrow> bool" where
  "InputAssumptionLattice_is_top self = (kind self = TOP)"

fun InputAssumptionLattice_top :: "'r InputAssumptionLattice \<Rightarrow> 'r InputAssumptionLattice" where
  "InputAssumptionLattice_top (IAL k i xs l c) = IAL TOP i xs l c"

fun InputAssumptionLattice_bottom :: "'r InputAssumptionLattice \<Rightarrow> 'r InputAssumptionLattice" where
  "InputAssumptionLattice_bottom (IAL k i xs l c) = IAL BOTTOM i xs l c"

text \<open>The property \<open>assmps\<close>: \<open>None\<close> on bottom and on top, the list \<open>_assmps\<close> otherwise.\<close>

definition assmps :: "'r InputAssumptionLattice \<Rightarrow> 'r assmp list option" where
  "assmps self =
     (if InputAssumptionLattice_is_bottom self \<or> InputAssumptionLattice_is_top self then None
      else Some (assmps_raw self))"

text \<open>The list \<open>_assmps\<close> after its in-place update; every other field stays.\<close>

fun set_assmps :: "'r InputAssumptionLattice \<Rightarrow> 'r assmp list \<Rightarrow> 'r InputAssumptionLattice" where
  "set_assmps (IAL k i xs l c) ys = IAL k i ys l c"

fun isinstance_InputAssumptionLattice :: "'r assmp \<Rightarrow> bool" where
  "isinstance_InputAssumptionLattice (Nested n) = True"
| "isinstance_InputAssumptionLattice (Leaf a) = False"

text \<open>\<open>isinstance(x, InputAssumptionLattice) and x.iterations is None\<close>.\<close>

fun is_placeholder :: "'r assmp \<Rightarrow> bool" where
  "is_placeholder (Nested n) = (iterations n = None)"
| "is_placeholder (Leaf a) = False"

text \<open>\<open>is_bottom()\<close> and \<open>is_top()\<close> of an element of the list, by its class.\<close>

fun assmp_is_bottom :: "'r range_ops \<Rightarrow> 'r assmp \<Rightarrow> bool" where
  "assmp_is_bottom ops (Leaf a) = AssumptionLattice_is_bottom ops a"
| "assmp_is_bottom ops (Nested n) = InputAssumptionLattice_is_bottom n"

fun assmp_is_top :: "'r range_ops \<Rightarrow> 'r assmp \<Rightarrow> bool" where
  "assmp_is_top ops (Leaf a) = AssumptionLattice_is_top ops a"
| "assmp_is_top ops (Nested n) = InputAssumptionLattice_is_top n"

subsection \<open>The mutator helpers\<close>

text \<open>\<open>add_assumption_front\<close> asserts that its argument is an \<open>AssumptionLattice\<close>.\<close>

fun add_assumption_front ::
  "'r InputAssumptionLattice \<Rightarrow> 'r assmp \<Rightarrow> error + 'r InputAssumptionLattice" where
  "add_assumption_front self (Leaf a) = Inr (set_assmps self (Leaf a # assmps_raw self))"
| "add_assumption_front self (Nested n) = Inl AssertionError"

text \<open>
  \<open>add_assumptions_front\<close> computes \<open>assmps + self.assmps\<close> with the property, which is
  \<open>None\<close> on bottom and on top: a list plus \<open>None\<close> is a \<open>TypeError\<close>.
\<close>

definition add_assumptions_front ::
  "'r InputAssumptionLattice \<Rightarrow> 'r assmp list \<Rightarrow> error + 'r InputAssumptionLattice" where
  "add_assumptions_front self new_assmps =
     (case assmps self of
        None \<Rightarrow> Inl TypeError
      | Some xs \<Rightarrow> Inr (set_assmps self (new_assmps @ xs)))"

fun set_is_loop :: "'r InputAssumptionLattice \<Rightarrow> bool \<Rightarrow> 'r InputAssumptionLattice" where
  "set_is_loop (IAL k i xs l c) b = IAL k i xs b c"

definition add_assumptions_with_iter ::
  "'r InputAssumptionLattice \<Rightarrow> int option \<Rightarrow> 'r assmp list option \<Rightarrow> 'r InputAssumptionLattice" where
  "add_assumptions_with_iter self iters new_assmps =
     (let input_assmps = set_is_loop (InputAssumptionLattice_init iters new_assmps) True
      in set_assmps self (Nested input_assmps # assmps_raw self))"

subsection \<open>The join\<close>

text \<open>
  The position-wise loop of \<open>_join\<close> over \<open>zip(self.assmps, other.assmps)\<close>. It updates
  the elements of \<open>self\<close> in place, so its result is the list of \<open>self\<close> after the
  loop: \<open>Completed\<close> when the loop ran to its end, \<open>Returned_top\<close> when it left with
  \<open>return self.top()\<close> (the positions before that one are already updated). \<open>J\<close> is
  the public join on nested elements.

  Modelled from the spec: \<open>replace\<close> of \<open>lattice.py\<close> (not among the sources), by which
  the receiver adopts the full content of its argument; \<open>assmp1.replace(deepcopy(assmp2))\<close>
  leaves a duplicate of \<open>assmp2\<close> at the position. A duplicate of a value is the value.
\<close>

datatype 'r loop_result = Completed "'r assmp list" | Returned_top "'r assmp list"

fun loop_list :: "'r loop_result \<Rightarrow> 'r assmp list" where
  "loop_list (Completed r) = r"
| "loop_list (Returned_top r) = r"

fun continue_with :: "'r assmp \<Rightarrow> error + 'r loop_result \<Rightarrow> error + 'r loop_result" where
  "continue_with v (Inl e) = Inl e"
| "continue_with v (Inr (Completed r)) = Inr (Completed (v # r))"
| "continue_with v (Inr (Returned_top r)) = Inr (Returned_top (v # r))"

fun join_loop ::
  "('r InputAssumptionLattice \<Rightarrow> 'r InputAssumptionLattice \<Rightarrow> error + 'r InputAssumptionLattice)
   \<Rightarrow> 'r range_ops \<Rightarrow> 'r assmp list \<Rightarrow> 'r assmp list \<Rightarrow> error + 'r loop_result" where
  "join_loop J ops [] ys = Inr (Completed [])"
| "join_loop J ops (assmp1 # rest1) [] = Inr (Completed (assmp1 # rest1))"
| "join_loop J ops (assmp1 # rest1) (assmp2 # rest2) =
     (if is_placeholder assmp1 then continue_with assmp2 (join_loop J ops rest1 rest2)
      else if is_placeholder assmp2 then continue_with assmp1 (join_loop J ops rest1 rest2)
      else if isinstance_InputAssumptionLattice assmp1 = isinstance_InputAssumptionLattice assmp2 then
        (case (assmp1, assmp2) of
           (Leaf a1, Leaf a2) \<Rightarrow>
             (case AssumptionLattice_join ops a1 a2 of
                Inl e \<Rightarrow> Inl e
              | Inr a \<Rightarrow> continue_with (Leaf a) (join_loop J ops rest1 rest2))
         | (Nested n1, Nested n2) \<Rightarrow>
             (case J n1 n2 of
                Inl e \<Rightarrow> Inl e
              | Inr n \<Rightarrow> continue_with (Nested n) (join_loop J ops rest1 rest2))
         | _ \<Rightarrow> Inl AttributeError)
      else Inr (Returned_top (assmp1 # rest1)))"

text \<open>The loop calls \<open>J\<close> on nested elements of the two lists only.\<close>

lemma join_loop_eq:
  "(\<And>m n. Nested m \<in> set xs \<Longrightarrow> Nested n \<in> set ys \<Longrightarrow> J m n = J' m n) \<Longrightarrow>
   join_loop J ops xs ys = join_loop J' ops xs ys"
proof (induction xs arbitrary: ys)
  case Nil
  show ?case by simp
next
  case (Cons x xs)
  show ?case
  proof (cases ys)
    case Nil
    then show ?thesis by simp
  next
    case (Cons y ys')
    have rest: "join_loop J ops xs ys' = join_loop J' ops xs ys'"
      using Cons.prems Cons.IH [of ys'] Cons by simp
    have hd: "\<And>m n. x = Nested m \<Longrightarrow> y = Nested n \<Longrightarrow> J m n = J' m n"
      using Cons.prems Cons by simp
    show ?thesis using Cons rest hd
      by (simp split: assmp.splits sum.splits)
  qed
qed

lemma join_loop_cong [fundef_cong]:
  "xs = xs' \<Longrightarrow> ys = ys' \<Longrightarrow> ops = ops' \<Longrightarrow>
   (\<And>m n. Nested m \<in> set xs' \<Longrightarrow> Nested n \<in> set ys' \<Longrightarrow> J m n = J' m n) \<Longrightarrow>
   join_loop J ops xs ys = join_loop J' ops' xs' ys'"
  using join_loop_eq [of xs' ys' J J' ops'] by simp

text \<open>\<open>xs.pop(1)\<close> on a list.\<close>

definition pop1 :: "'a list \<Rightarrow> 'a list" where
  "pop1 xs = take 1 xs @ drop 2 xs"

text \<open>
  The public \<open>join\<close> and the hook \<open>_join\<close>.

  Modelled from the spec: the public \<open>join\<close> inherited from \<open>Lattice\<close> (\<open>lattice.py\<close>,
  not among the sources), with the short-circuits described for \<open>TypeLattice\<close>; and
  \<open>top()\<close> of \<open>BoundedLattice\<close>.

  The hook is the source's. In the two length-reconciliation branches the indices
  \<open>0\<close> and \<open>1\<close> are in range: the longer list has at least two elements, the shorter
  at least one. \<open>self.assmps[0].join(self.assmps[1])\<close> updates the first element in
  place, \<open>pop(1)\<close> removes the second, the \<open>assert\<close> compares the lengths, and
  \<open>self.join(other)\<close> is the public join again. When \<open>other\<close> is the longer one the
  same is done on \<open>other_copy = deepcopy(other)\<close>.
\<close>

function (domintros)
  InputAssumptionLattice_join ::
    "'r range_ops \<Rightarrow> 'r InputAssumptionLattice \<Rightarrow> 'r InputAssumptionLattice
     \<Rightarrow> error + 'r InputAssumptionLattice"
and InputAssumptionLattice__join ::
    "'r range_ops \<Rightarrow> 'r InputAssumptionLattice \<Rightarrow> 'r InputAssumptionLattice
     \<Rightarrow> error + 'r InputAssumptionLattice"
where
  "InputAssumptionLattice_join ops self other =
     (if InputAssumptionLattice_is_bottom self \<or> InputAssumptionLattice_is_top other then Inr other
      else if InputAssumptionLattice_is_bottom other \<or> InputAssumptionLattice_is_top self then Inr self
      else InputAssumptionLattice__join ops self other)"
| "InputAssumptionLattice__join ops self other =
     (if iterations other = None then Inr self
      else if iterations self = None then Inr other
      else if iterations self \<noteq> iterations other then Inr (InputAssumptionLattice_top self)
      else
        (case assmps self of
           None \<Rightarrow> Inl TypeError
         | Some self_assmps \<Rightarrow>
        (case assmps other of
           None \<Rightarrow> Inl TypeError
         | Some other_assmps \<Rightarrow>
        if length self_assmps = length other_assmps then
          (case join_loop (\<lambda>assmp1 assmp2. InputAssumptionLattice_join ops assmp1 assmp2)
                  ops self_assmps other_assmps of
             Inl e \<Rightarrow> Inl e
           | Inr (Completed r) \<Rightarrow> Inr (set_assmps self r)
           | Inr (Returned_top r) \<Rightarrow> Inr (InputAssumptionLattice_top (set_assmps self r)))
        else if length self_assmps > length other_assmps \<and> length other_assmps > 0 then
          (if is_placeholder (other_assmps ! 0)
               \<and> isinstance_InputAssumptionLattice (self_assmps ! 0) \<and> isinstance_InputAssumptionLattice (self_assmps ! 1) then
             (case InputAssumptionLattice_join ops
                     (the_nested (self_assmps ! 0)) (the_nested (self_assmps ! 1)) of
                Inl e \<Rightarrow> Inl e
              | Inr folded \<Rightarrow>
                  (let self' = set_assmps self (pop1 (self_assmps[0 := Nested folded])) in
                   if length (pop1 (self_assmps[0 := Nested folded])) = length other_assmps
                   then InputAssumptionLattice_join ops self' other
                   else Inl AssertionError))
           else Inr (InputAssumptionLattice_top self))
        else if length other_assmps > length self_assmps \<and> length self_assmps > 0 then
          (if is_placeholder (self_assmps ! 0)
               \<and> isinstance_InputAssumptionLattice (other_assmps ! 0) \<and> isinstance_InputAssumptionLattice (other_assmps ! 1) then
             (case InputAssumptionLattice_join ops
                     (the_nested (other_assmps ! 0)) (the_nested (other_assmps ! 1)) of
                Inl e \<Rightarrow> Inl e
              | Inr folded \<Rightarrow>
                  (let other_copy = set_assmps other (pop1 (other_assmps[0 := Nested folded])) in
                   if length self_assmps = length (pop1 (other_assmps[0 := Nested folded]))
                   then InputAssumptionLattice_join ops self other_copy
                   else Inl AssertionError))
           else Inr (InputAssumptionLattice_top self))
        else Inr (InputAssumptionLattice_top self))))"
  by pat_completeness auto



subsection \<open>Termination of the join\<close>

text \<open>
  The retried join takes the result of the inner join as part of its argument, so
  termination needs a bound on the size of a result: it is at most the size of the
  receiver plus the size of the argument.
\<close>

fun ial_size :: "'r InputAssumptionLattice \<Rightarrow> nat" and assmp_size :: "'r assmp \<Rightarrow> nat" where
  "ial_size (IAL k i xs l c) = Suc (sum_list (map assmp_size xs))"
| "assmp_size (Leaf a) = 1"
| "assmp_size (Nested n) = Suc (ial_size n)"

definition sum_size :: "'r assmp list \<Rightarrow> nat" where
  "sum_size xs = sum_list (map assmp_size xs)"

lemma ial_size_top [simp]: "ial_size (InputAssumptionLattice_top x) = ial_size x"
  by (cases x) simp

lemma ial_size_set_assmps [simp]: "ial_size (set_assmps x ys) = Suc (sum_size ys)"
  by (cases x) (simp add: sum_size_def)

lemma ial_size_assmps: "assmps x = Some xs \<Longrightarrow> ial_size x = Suc (sum_size xs)"
  by (cases x) (auto simp: assmps_def sum_size_def split: if_splits)

lemma sum_size_simps [simp]:
  "sum_size [] = 0" "sum_size (x # xs) = assmp_size x + sum_size xs"
  by (simp_all add: sum_size_def)

lemma continue_with_Inr:
  "continue_with v res = Inr out \<Longrightarrow>
   \<exists>out'. res = Inr out' \<and> loop_list out = v # loop_list out'"
  by (cases "(v, res)" rule: continue_with.cases) auto

lemma join_loop_size:
  assumes "\<And>m n r. Nested m \<in> set xs \<Longrightarrow> Nested n \<in> set ys \<Longrightarrow> J m n = Inr r
             \<Longrightarrow> ial_size r \<le> ial_size m + ial_size n"
    and "join_loop J ops xs ys = Inr out"
  shows "sum_size (loop_list out) \<le> sum_size xs + sum_size ys"
  using assms
proof (induction xs arbitrary: ys out)
  case Nil
  then show ?case by auto
next
  case (Cons x xs)
  show ?case
  proof (cases ys)
    case Nil
    then show ?thesis using Cons.prems by auto
  next
    case (Cons y ys')
    have IH: "\<And>out'. join_loop J ops xs ys' = Inr out'
                \<Longrightarrow> sum_size (loop_list out') \<le> sum_size xs + sum_size ys'"
      using Cons.IH [of ys'] Cons.prems(1) Cons by simp
    have hd: "\<And>m n r. x = Nested m \<Longrightarrow> y = Nested n \<Longrightarrow> J m n = Inr r
                \<Longrightarrow> ial_size r \<le> ial_size m + ial_size n"
      using Cons.prems(1) Cons by simp
    show ?thesis
      using Cons.prems(2) Cons IH hd
      by (fastforce split: if_splits assmp.splits sum.splits dest!: continue_with_Inr)
  qed
qed

lemma sum_size_fold:
  assumes "1 < length xs" "xs ! 0 = Nested s0" "xs ! 1 = Nested s1"
  shows "sum_size xs = Suc (ial_size s0) + Suc (ial_size s1) + sum_size (drop 2 xs)"
    and "sum_size (pop1 (xs[0 := Nested b])) = Suc (ial_size b) + sum_size (drop 2 xs)"
proof -
  obtain x0 x1 rest where xs: "xs = x0 # x1 # rest"
    using assms(1) by (cases xs; cases "tl xs") auto
  show "sum_size xs = Suc (ial_size s0) + Suc (ial_size s1) + sum_size (drop 2 xs)"
    using assms xs by simp
  show "sum_size (pop1 (xs[0 := Nested b])) = Suc (ial_size b) + sum_size (drop 2 xs)"
    using xs by (simp add: pop1_def)
qed

lemma nested_the: "isinstance_InputAssumptionLattice x \<Longrightarrow> x = Nested (the_nested x)"
  by (cases x) auto

lemma join_size_partial:
  "InputAssumptionLattice_join_InputAssumptionLattice__join_dom (Inl (ops :: 'r range_ops, self, other)) \<Longrightarrow>
     (\<forall>r. InputAssumptionLattice_join ops self other = Inr r
           \<longrightarrow> ial_size r \<le> ial_size self + ial_size other)"
  "InputAssumptionLattice_join_InputAssumptionLattice__join_dom (Inr (ops' :: 'r range_ops, self', other')) \<Longrightarrow>
     (\<forall>r. InputAssumptionLattice__join ops' self' other' = Inr r
           \<longrightarrow> ial_size r \<le> ial_size self' + ial_size other')"
proof (induct ops self other and ops' self' other' rule: InputAssumptionLattice_join_InputAssumptionLattice__join.pinduct)
  case (1 ops self other)
  then show ?case
    by (auto simp: InputAssumptionLattice_join.psimps split: if_splits)
next
  case (2 ops self other)
  show ?case
  proof (intro allI impI)
    fix r
    assume res: "InputAssumptionLattice__join ops self other = Inr r"
    note ps = InputAssumptionLattice__join.psimps [OF 2(1)]
    show "ial_size r \<le> ial_size self + ial_size other"
    proof (cases "iterations other = None \<or> iterations self = None
                    \<or> iterations self \<noteq> iterations other")
      case True
      then show ?thesis using res ps by (auto split: if_splits)
    next
      case False
      then have it: "iterations other \<noteq> None" "iterations self \<noteq> None"
        "\<not> iterations self \<noteq> iterations other" by auto
      from res ps False obtain sa oa where
        sa: "assmps self = Some sa" and oa: "assmps other = Some oa"
        by (auto split: option.splits)
      have sz: "ial_size self = Suc (sum_size sa)" "ial_size other = Suc (sum_size oa)"
        using sa oa by (simp_all add: ial_size_assmps)
      consider (eq) "length sa = length oa"
        | (self_longer) "length sa \<noteq> length oa" "length oa < length sa \<and> 0 < length oa"
        | (other_longer) "length sa \<noteq> length oa" "\<not> (length oa < length sa \<and> 0 < length oa)"
            "length sa < length oa \<and> 0 < length sa"
        | (neither) "length sa \<noteq> length oa" "\<not> (length oa < length sa \<and> 0 < length oa)"
            "\<not> (length sa < length oa \<and> 0 < length sa)"
        by blast
      then show ?thesis
      proof cases
        case eq
        from res ps False sa oa eq obtain out where
          out: "join_loop (\<lambda>a b. InputAssumptionLattice_join ops a b) ops sa oa = Inr out"
          and r: "ial_size r = Suc (sum_size (loop_list out))"
          by (auto split: sum.splits loop_result.splits)
        have "sum_size (loop_list out) \<le> sum_size sa + sum_size oa"
          using join_loop_size [OF _ out] "2.hyps"(2) [OF it sa oa eq] by blast
        then show ?thesis using r sz by simp
      next
        case self_longer
        show ?thesis
        proof (cases "is_placeholder (oa ! 0) \<and> isinstance_InputAssumptionLattice (sa ! 0)
                        \<and> isinstance_InputAssumptionLattice (sa ! 1)")
          case True
          from res ps False sa oa self_longer True obtain b where
            b: "InputAssumptionLattice_join ops (the_nested (sa ! 0)) (the_nested (sa ! 1)) = Inr b"
            and len: "length (pop1 (sa[0 := Nested b])) = length oa"
            and r: "InputAssumptionLattice_join ops (set_assmps self (pop1 (sa[0 := Nested b]))) other = Inr r"
            by (auto split: sum.splits if_splits simp: Let_def)
          have b_sz: "ial_size b \<le> ial_size (the_nested (sa ! 0)) + ial_size (the_nested (sa ! 1))"
            using "2.hyps"(3) [OF it sa oa self_longer True] b by blast
          have r_sz: "ial_size r \<le> ial_size (set_assmps self (pop1 (sa[0 := Nested b]))) + ial_size other"
            using "2.hyps"(4) [OF it sa oa self_longer True b refl len] r by blast
          have "1 < length sa" using self_longer by (cases oa) auto
          then have "sum_size (pop1 (sa[0 := Nested b])) \<le> sum_size sa"
            using sum_size_fold(1) [of sa "the_nested (sa ! 0)" "the_nested (sa ! 1)"]
              sum_size_fold(2) [of sa "the_nested (sa ! 0)" "the_nested (sa ! 1)" b]
              nested_the [of "sa ! 0"] nested_the [of "sa ! 1"] True b_sz
            by simp
          then show ?thesis using r_sz sz by simp
        next
          case False
          then show ?thesis using res ps it sa oa self_longer by (auto split: if_splits)
        qed
      next
        case other_longer
        show ?thesis
        proof (cases "is_placeholder (sa ! 0) \<and> isinstance_InputAssumptionLattice (oa ! 0)
                        \<and> isinstance_InputAssumptionLattice (oa ! 1)")
          case True
          from res ps False sa oa other_longer True obtain b where
            b: "InputAssumptionLattice_join ops (the_nested (oa ! 0)) (the_nested (oa ! 1)) = Inr b"
            and len: "length sa = length (pop1 (oa[0 := Nested b]))"
            and r: "InputAssumptionLattice_join ops self (set_assmps other (pop1 (oa[0 := Nested b]))) = Inr r"
            by (auto split: sum.splits if_splits simp: Let_def)
          have b_sz: "ial_size b \<le> ial_size (the_nested (oa ! 0)) + ial_size (the_nested (oa ! 1))"
            using "2.hyps"(5) [OF it sa oa other_longer True] b by blast
          have r_sz: "ial_size r \<le> ial_size self + ial_size (set_assmps other (pop1 (oa[0 := Nested b])))"
            using "2.hyps"(6) [OF it sa oa other_longer True b refl len] r by blast
          have "1 < length oa" using other_longer by (cases sa) auto
          then have "sum_size (pop1 (oa[0 := Nested b])) \<le> sum_size oa"
            using sum_size_fold(1) [of oa "the_nested (oa ! 0)" "the_nested (oa ! 1)"]
              sum_size_fold(2) [of oa "the_nested (oa ! 0)" "the_nested (oa ! 1)" b]
              nested_the [of "oa ! 0"] nested_the [of "oa ! 1"] True b_sz
            by simp
          then show ?thesis using r_sz sz by simp
        next
          case False
          then show ?thesis using res ps it sa oa other_longer by (auto split: if_splits)
        qed
      next
        case neither
        then show ?thesis using res ps it sa oa by (auto split: if_splits)
      qed
    qed
  qed
qed


lemma assmp_size_mem: "x \<in> set xs \<Longrightarrow> assmp_size x \<le> sum_size xs"
  by (induction xs) auto

lemma fold_inner_smaller:
  assumes "1 < length xs" "isinstance_InputAssumptionLattice (xs ! 0)"
    "isinstance_InputAssumptionLattice (xs ! 1)"
  shows "Suc (Suc (ial_size (the_nested (xs ! 0)) + ial_size (the_nested (xs ! 1)))) \<le> sum_size xs"
  using sum_size_fold(1) [OF assms(1) nested_the [OF assms(2)] nested_the [OF assms(3)]]
  by simp

lemma fold_result_smaller:
  assumes "1 < length xs" "isinstance_InputAssumptionLattice (xs ! 0)"
    "isinstance_InputAssumptionLattice (xs ! 1)"
    "ial_size b \<le> ial_size (the_nested (xs ! 0)) + ial_size (the_nested (xs ! 1))"
  shows "sum_size (pop1 (xs[0 := Nested b])) < sum_size xs"
  using sum_size_fold(1) [OF assms(1) nested_the [OF assms(2)] nested_the [OF assms(3)]]
    sum_size_fold(2) [OF assms(1) nested_the [OF assms(2)] nested_the [OF assms(3)], of b]
    assms(4)
  by simp

termination InputAssumptionLattice_join
proof (relation "measure (\<lambda>x. case x of
          Inl (ops, self, other) \<Rightarrow> 2 * (ial_size self + ial_size other) + 1
        | Inr (ops, self, other) \<Rightarrow> 2 * (ial_size self + ial_size other))", goal_cases)
  case 1
  show ?case by simp
next
  case (2 ops self other)
  show ?case by simp
next
  case (3 ops self other sa oa m n)
  then show ?case
    using assmp_size_mem [of "Nested m" sa] assmp_size_mem [of "Nested n" oa]
    by (simp add: ial_size_assmps)
next
  case (4 ops self other sa oa)
  then have "1 < length sa" by (cases oa) auto
  from fold_inner_smaller [OF this] 4 show ?case
    by (simp add: ial_size_assmps)
next
  case (5 ops self other sa oa b x)
  then have "1 < length sa" by (cases oa) auto
  moreover have "ial_size b \<le> ial_size (the_nested (sa ! 0)) + ial_size (the_nested (sa ! 1))"
    using join_size_partial(1) 5 by blast
  ultimately have "sum_size (pop1 (sa[0 := Nested b])) < sum_size sa"
    using fold_result_smaller 5 by blast
  then show ?case using 5 by (simp add: ial_size_assmps)
next
  case (6 ops self other sa oa)
  then have "1 < length oa" by (cases sa) auto
  from fold_inner_smaller [OF this] 6 show ?case
    by (simp add: ial_size_assmps)
next
  case (7 ops self other sa oa b x)
  then have "1 < length oa" by (cases sa) auto
  moreover have "ial_size b \<le> ial_size (the_nested (oa ! 0)) + ial_size (the_nested (oa ! 1))"
    using join_size_partial(1) 7 by blast
  ultimately have "sum_size (pop1 (oa[0 := Nested b])) < sum_size oa"
    using fold_result_smaller 7 by blast
  then show ?case using 7 by (simp add: ial_size_assmps)
qed


declare InputAssumptionLattice_join.simps [simp del]
declare InputAssumptionLattice__join.simps [simp del]

subsection \<open>The order\<close>

text \<open>
  \<open>assmp1.less_equal(assmp2)\<close> on two elements of the lists: the public \<open>less_equal\<close>
  (modelled from the spec as above: bottom is below anything, anything is below top)
  and then the hook of the class of \<open>assmp1\<close>. The hook of a leaf reads
  \<open>other.type_assumption\<close>, the hook of a nested element reads \<open>other.assmps\<close>; an
  element of the other class has neither attribute. \<open>LE\<close> is the hook on nested
  elements.
\<close>

fun assmp_less_equal ::
  "('r InputAssumptionLattice \<Rightarrow> 'r InputAssumptionLattice \<Rightarrow> error + bool)
   \<Rightarrow> 'r range_ops \<Rightarrow> 'r assmp \<Rightarrow> 'r assmp \<Rightarrow> error + bool" where
  "assmp_less_equal LE ops assmp1 assmp2 =
     (if assmp_is_bottom ops assmp1 \<or> assmp_is_top ops assmp2 then Inr True
      else if assmp_is_bottom ops assmp2 \<or> assmp_is_top ops assmp1 then Inr False
      else
        (case (assmp1, assmp2) of
           (Leaf a1, Leaf a2) \<Rightarrow> AssumptionLattice__less_equal ops a1 a2
         | (Nested n1, Nested n2) \<Rightarrow> LE n1 n2
         | _ \<Rightarrow> Inl AttributeError))"

fun less_equal_loop ::
  "('r InputAssumptionLattice \<Rightarrow> 'r InputAssumptionLattice \<Rightarrow> error + bool)
   \<Rightarrow> 'r range_ops \<Rightarrow> 'r assmp list \<Rightarrow> 'r assmp list \<Rightarrow> error + bool" where
  "less_equal_loop LE ops [] ys = Inr True"
| "less_equal_loop LE ops (assmp1 # rest1) [] = Inr True"
| "less_equal_loop LE ops (assmp1 # rest1) (assmp2 # rest2) =
     (case assmp_less_equal LE ops assmp1 assmp2 of
        Inl e \<Rightarrow> Inl e
      | Inr False \<Rightarrow> Inr False
      | Inr True \<Rightarrow> less_equal_loop LE ops rest1 rest2)"

lemma less_equal_loop_eq:
  "(\<And>m n. Nested m \<in> set xs \<Longrightarrow> Nested n \<in> set ys \<Longrightarrow> LE m n = LE' m n) \<Longrightarrow>
   less_equal_loop LE ops xs ys = less_equal_loop LE' ops xs ys"
proof (induction xs arbitrary: ys)
  case Nil
  show ?case by simp
next
  case (Cons x xs)
  show ?case
  proof (cases ys)
    case Nil
    then show ?thesis by simp
  next
    case (Cons y ys')
    have rest: "less_equal_loop LE ops xs ys' = less_equal_loop LE' ops xs ys'"
      using Cons.prems Cons.IH [of ys'] Cons by simp
    have "\<And>m n. x = Nested m \<Longrightarrow> y = Nested n \<Longrightarrow> LE m n = LE' m n"
      using Cons.prems Cons by simp
    then have hd: "assmp_less_equal LE ops x y = assmp_less_equal LE' ops x y"
      by (simp split: assmp.splits)
    show ?thesis using Cons rest hd
      by (simp del: assmp_less_equal.simps split: sum.splits bool.splits)
  qed
qed

lemma less_equal_loop_cong [fundef_cong]:
  "xs = xs' \<Longrightarrow> ys = ys' \<Longrightarrow> ops = ops' \<Longrightarrow>
   (\<And>m n. Nested m \<in> set xs' \<Longrightarrow> Nested n \<in> set ys' \<Longrightarrow> LE m n = LE' m n) \<Longrightarrow>
   less_equal_loop LE ops xs ys = less_equal_loop LE' ops' xs' ys'"
  using less_equal_loop_eq [of xs' ys' LE LE' ops'] by simp

function InputAssumptionLattice__less_equal ::
  "'r range_ops \<Rightarrow> 'r InputAssumptionLattice \<Rightarrow> 'r InputAssumptionLattice \<Rightarrow> error + bool" where
  "InputAssumptionLattice__less_equal ops self other =
     (case assmps self of
        None \<Rightarrow> Inl TypeError
      | Some self_assmps \<Rightarrow>
     (case assmps other of
        None \<Rightarrow> Inl TypeError
      | Some other_assmps \<Rightarrow>
     if length self_assmps \<noteq> length other_assmps then Inr False
     else less_equal_loop (\<lambda>assmp1 assmp2. InputAssumptionLattice__less_equal ops assmp1 assmp2)
            ops self_assmps other_assmps))"
  by pat_completeness auto
termination
proof (relation "measure (\<lambda>(ops, self, other). ial_size self)", goal_cases)
  case 1
  show ?case by simp
next
  case (2 ops self other sa oa m n)
  then show ?case
    using assmp_size_mem [of "Nested m" sa]
    by (simp add: ial_size_assmps)
qed

declare InputAssumptionLattice__less_equal.simps [simp del]

definition InputAssumptionLattice_less_equal ::
  "'r range_ops \<Rightarrow> 'r InputAssumptionLattice \<Rightarrow> 'r InputAssumptionLattice \<Rightarrow> error + bool" where
  "InputAssumptionLattice_less_equal ops self other =
     (if InputAssumptionLattice_is_bottom self \<or> InputAssumptionLattice_is_top other then Inr True
      else if InputAssumptionLattice_is_bottom other \<or> InputAssumptionLattice_is_top self then Inr False
      else InputAssumptionLattice__less_equal ops self other)"

subsection \<open>Meet and widening\<close>

text \<open>Both hooks consist of \<open>raise NotImplementedError(...)\<close>.\<close>

definition InputAssumptionLattice__meet ::
  "'r range_ops \<Rightarrow> 'r InputAssumptionLattice \<Rightarrow> 'r InputAssumptionLattice
   \<Rightarrow> error + 'r InputAssumptionLattice" where
  "InputAssumptionLattice__meet ops self other = Inl NotImplementedError"

definition InputAssumptionLattice__widening ::
  "'r range_ops \<Rightarrow> 'r InputAssumptionLattice \<Rightarrow> 'r InputAssumptionLattice
   \<Rightarrow> error + 'r InputAssumptionLattice" where
  "InputAssumptionLattice__widening ops self other = Inl NotImplementedError"

section \<open>Store\<close>

text \<open>
  A Python dictionary keyed by types: a plain \<open>dict\<close> raises \<open>KeyError\<close> on a missing
  key, a \<open>defaultdict\<close> answers with the value of its factory. The parameter
  \<open>arguments\<close> of the constructor defaults to \<open>defaultdict(lambda: dict())\<close>.
\<close>

datatype 'v type_dict = Dict "LyraType \<rightharpoonup> 'v" | DefaultDict 'v "LyraType \<rightharpoonup> 'v"

fun getitem :: "'v type_dict \<Rightarrow> LyraType \<Rightarrow> error + 'v" where
  "getitem (Dict m) t = (case m t of None \<Rightarrow> Inl (KeyError (Type_key t)) | Some v \<Rightarrow> Inr v)"
| "getitem (DefaultDict d m) t = (case m t of None \<Rightarrow> Inr d | Some v \<Rightarrow> Inr v)"

text \<open>
  A lattice class, called with the keyword arguments \<open>'a\<close>, gives a fresh element
  \<open>'l\<close>. The store keeps the two dictionaries it was built from.
\<close>

record ('a, 'l) Store =
  lattices :: "('a \<Rightarrow> 'l) type_dict"
  arguments :: "'a type_dict"
  store :: "VariableIdentifier \<rightharpoonup> 'l"

text \<open>
  \<open>lattices[v.typ](**arguments[v.typ])\<close>: the class is looked up first, then the
  arguments.
\<close>

definition fresh_element ::
  "('a \<Rightarrow> 'l) type_dict \<Rightarrow> 'a type_dict \<Rightarrow> VariableIdentifier \<Rightarrow> error + 'l" where
  "fresh_element lats args v =
     (case getitem lats (var_typ v) of
        Inl e \<Rightarrow> Inl e
      | Inr cls \<Rightarrow>
          (case getitem args (var_typ v) of
             Inl e \<Rightarrow> Inl e
           | Inr kwargs \<Rightarrow> Inr (cls kwargs)))"

text \<open>The dictionary comprehension over \<open>variables\<close>, in order; a later duplicate wins.\<close>

fun store_comprehension ::
  "('a \<Rightarrow> 'l) type_dict \<Rightarrow> 'a type_dict \<Rightarrow> VariableIdentifier list
   \<Rightarrow> (VariableIdentifier \<rightharpoonup> 'l) \<Rightarrow> error + (VariableIdentifier \<rightharpoonup> 'l)" where
  "store_comprehension lats args [] acc = Inr acc"
| "store_comprehension lats args (v # vs) acc =
     (case fresh_element lats args v of
        Inl e \<Rightarrow> Inl e
      | Inr element \<Rightarrow> store_comprehension lats args vs (acc(v \<mapsto> element)))"

text \<open>\<open>__init__\<close>: a \<open>KeyError\<close> of the comprehension becomes the \<open>ValueError\<close>.\<close>

definition Store_init ::
  "VariableIdentifier list \<Rightarrow> ('a \<Rightarrow> 'l) type_dict \<Rightarrow> 'a type_dict \<Rightarrow> error + ('a, 'l) Store" where
  "Store_init variables lats args =
     (case store_comprehension lats args variables Map.empty of
        Inl (KeyError k) \<Rightarrow> Inl (ValueError_missing_lattice k)
      | Inl e \<Rightarrow> Inl e
      | Inr m \<Rightarrow> Inr \<lparr>lattices = lats, arguments = args, store = m\<rparr>)"

definition add_var :: "('a, 'l) Store \<Rightarrow> VariableIdentifier \<Rightarrow> error + ('a, 'l) Store" where
  "add_var self var =
     (if var \<notin> dom (store self) then
        (case fresh_element (lattices self) (arguments self) var of
           Inl e \<Rightarrow> Inl e
         | Inr element \<Rightarrow> Inr (self\<lparr>store := (store self)(var \<mapsto> element)\<rparr>))
      else Inl ValueError_already_present)"

definition remove_var :: "('a, 'l) Store \<Rightarrow> VariableIdentifier \<Rightarrow> ('a, 'l) Store" where
  "remove_var self var =
     (if var \<in> dom (store self) then self\<lparr>store := (store self)(var := None)\<rparr> else self)"

text \<open>
  \<open>invalidate_var\<close> is \<open>self.store[var].top()\<close>; \<open>top_of\<close> is the method \<open>top\<close> of the
  elements.
\<close>

definition invalidate_var ::
  "('l \<Rightarrow> 'l) \<Rightarrow> ('a, 'l) Store \<Rightarrow> VariableIdentifier \<Rightarrow> error + ('a, 'l) Store" where
  "invalidate_var top_of self var =
     (case store self var of
        None \<Rightarrow> Inl (KeyError (Variable_key var))
      | Some element \<Rightarrow> Inr (self\<lparr>store := (store self)(var \<mapsto> top_of element)\<rparr>))"

section \<open>The position-wise step\<close>

text \<open>
  The body of the loop of \<open>_join\<close> at one position of two sequences of equal length,
  with its four branches in the order of the source: a nested element with unresolved
  iterations on the side of the receiver adopts the full content of the other side; one
  on the other side leaves the receiver's element as it is (\<open>continue\<close>); otherwise two
  leaves and two nested elements are joined directly (the join of nested elements is
  \<open>J\<close> and may fail); otherwise the two differ in kind, which is \<open>None\<close>.
\<close>

fun position_join ::
  "('r InputAssumptionLattice \<Rightarrow> 'r InputAssumptionLattice \<Rightarrow> error + 'r InputAssumptionLattice)
   \<Rightarrow> 'r range_ops \<Rightarrow> 'r assmp \<Rightarrow> 'r assmp \<Rightarrow> (error + 'r assmp) option" where
  "position_join J ops assmp1 assmp2 =
     (if is_placeholder assmp1 then Some (Inr assmp2)
      else if is_placeholder assmp2 then Some (Inr assmp1)
      else
        (case (assmp1, assmp2) of
           (Leaf a1, Leaf a2) \<Rightarrow>
             Some (case AssumptionLattice_join ops a1 a2 of Inl e \<Rightarrow> Inl e | Inr a \<Rightarrow> Inr (Leaf a))
         | (Nested n1, Nested n2) \<Rightarrow>
             Some (case J n1 n2 of Inl e \<Rightarrow> Inl e | Inr n \<Rightarrow> Inr (Nested n))
         | _ \<Rightarrow> None))"

section \<open>The length-reconciliation step\<close>

text \<open>
  The condition under which \<open>_join\<close> folds, read off the source: the shorter sequence
  is not empty and starts with a nested element with unresolved iterations, and the
  first two elements of the longer sequence are nested.
\<close>

definition fold_condition :: "'r assmp list \<Rightarrow> 'r assmp list \<Rightarrow> bool" where
  "fold_condition longer shorter =
     (length shorter < length longer \<and> shorter \<noteq> [] \<and> is_placeholder (shorter ! 0)
      \<and> isinstance_InputAssumptionLattice (longer ! 0)
      \<and> isinstance_InputAssumptionLattice (longer ! 1))"

text \<open>
  The pattern as the specification words it: the sequence starts with a nested element
  with unresolved iterations, immediately followed by two nested, resolved elements.
\<close>

fun claimed_fold_pattern :: "'r assmp list \<Rightarrow> bool" where
  "claimed_fold_pattern (Nested p # Nested n1 # Nested n2 # rest) =
     (iterations p = None \<and> iterations n1 \<noteq> None \<and> iterations n2 \<noteq> None)"
| "claimed_fold_pattern xs = False"

section \<open>Registered types\<close>

text \<open>Whether a dictionary answers for a type: \<open>t in d\<close>, or \<open>d\<close> is a \<open>defaultdict\<close>.\<close>

fun has_item :: "'v type_dict \<Rightarrow> LyraType \<Rightarrow> bool" where
  "has_item (Dict m) t = (m t \<noteq> None)"
| "has_item (DefaultDict d m) t = True"

section \<open>An interval lattice for the examples\<close>

text \<open>
  An instance of the parameter \<open>'r range_ops\<close>: intervals of integers with optional
  bounds, \<open>None\<close> for an infinite one. It is used in the examples only.
\<close>

datatype interval = Interval_bottom | Interval "int option" "int option"

fun interval_join :: "interval \<Rightarrow> interval \<Rightarrow> interval" where
  "interval_join Interval_bottom y = y"
| "interval_join x Interval_bottom = x"
| "interval_join (Interval l1 u1) (Interval l2 u2) =
     Interval (case (l1, l2) of (Some a, Some b) \<Rightarrow> Some (min a b) | _ \<Rightarrow> None)
              (case (u1, u2) of (Some a, Some b) \<Rightarrow> Some (max a b) | _ \<Rightarrow> None)"

fun interval_less_equal :: "interval \<Rightarrow> interval \<Rightarrow> bool" where
  "interval_less_equal Interval_bottom y = True"
| "interval_less_equal x Interval_bottom = False"
| "interval_less_equal (Interval l1 u1) (Interval l2 u2) =
     ((case (l1, l2) of (_, None) \<Rightarrow> True | (None, Some b) \<Rightarrow> False | (Some a, Some b) \<Rightarrow> b \<le> a)
      \<and> (case (u1, u2) of (_, None) \<Rightarrow> True | (None, Some b) \<Rightarrow> False | (Some a, Some b) \<Rightarrow> a \<le> b))"

fun interval_is_bottom :: "interval \<Rightarrow> bool" where
  "interval_is_bottom Interval_bottom = True"
| "interval_is_bottom (Interval l u) = False"

fun interval_is_top :: "interval \<Rightarrow> bool" where
  "interval_is_top (Interval None None) = True"
| "interval_is_top x = False"

definition interval_ops :: "interval range_ops" where
  "interval_ops =
     \<lparr>range_bottom = (\<lambda>x. Interval_bottom),
      range_top = (\<lambda>x. Interval None None),
      range_is_bottom = interval_is_bottom,
      range_is_top = interval_is_top,
      range_less_equal = interval_less_equal,
      range_join = interval_join\<rparr>"

subsection \<open>Example elements\<close>

definition leaf_int_0_10 :: "interval assmp" where
  "leaf_int_0_10 = Leaf \<lparr>type_assumption = TypeLattice_init Status_Int,
                          range_assumption = Interval (Some 0) (Some 10)\<rparr>"

definition leaf_float_5_20 :: "interval assmp" where
  "leaf_float_5_20 = Leaf \<lparr>type_assumption = TypeLattice_init Status_Float,
                          range_assumption = Interval (Some 5) (Some 20)\<rparr>"

definition leaf_float_0_20 :: "interval assmp" where
  "leaf_float_0_20 = Leaf \<lparr>type_assumption = TypeLattice_init Status_Float,
                          range_assumption = Interval (Some 0) (Some 20)\<rparr>"

definition placeholder :: "interval InputAssumptionLattice" where
  "placeholder = InputAssumptionLattice_init None None"

definition block_1 :: "interval InputAssumptionLattice" where
  "block_1 = InputAssumptionLattice_init (Some 1) (Some [leaf_int_0_10])"

definition block_2 :: "interval InputAssumptionLattice" where
  "block_2 = InputAssumptionLattice_init (Some 1) (Some [leaf_float_5_20])"

definition block_12 :: "interval InputAssumptionLattice" where
  "block_12 = InputAssumptionLattice_init (Some 1) (Some [leaf_float_0_20])"

definition block_long :: "interval InputAssumptionLattice" where
  "block_long = InputAssumptionLattice_init (Some 1)
                  (Some [Nested block_1, Nested block_2, Nested block_1])"

subsection \<open>Example stores\<close>

text \<open>
  Stores of \<open>TypeLattice\<close> elements: the class is called with the keyword argument
  \<open>type_status\<close>.
\<close>

definition var_x :: VariableIdentifier where
  "var_x = \<lparr>var_typ = IntegerLyraType, var_name = ''x''\<rparr>"

definition var_y :: VariableIdentifier where
  "var_y = \<lparr>var_typ = OtherLyraType ''str'', var_name = ''y''\<rparr>"

definition example_lattices :: "(Status \<Rightarrow> TypeLattice) type_dict" where
  "example_lattices = Dict [IntegerLyraType \<mapsto> TypeLattice_init]"

definition example_arguments :: "Status type_dict" where
  "example_arguments = DefaultDict Status_Any Map.empty"

definition example_store :: "(Status, TypeLattice) Store" where
  "example_store =
     \<lparr>lattices = example_lattices, arguments = example_arguments,
      store = [var_x \<mapsto> TypeLattice_init Status_Int]\<rparr>"

definition var_z :: VariableIdentifier where
  "var_z = \<lparr>var_typ = IntegerLyraType, var_name = ''z''\<rparr>"

section \<open>The join on a heap of objects\<close>

text \<open>
  The operations above take and return values. The lattice operations of the source
  change their receiver in place, and \<open>replace\<close> makes the receiver share objects with
  its argument, so what a join does to its argument can only be said on a heap. Here
  every Python object is a cell at an address: a \<open>TypeLattice\<close>, an \<open>IntervalLattice\<close>
  (its state is the parameter \<open>'r\<close>), an \<open>AssumptionLattice\<close> with the references to its
  two components (the dictionary \<open>_assumptions\<close> is written by \<open>__init__\<close> only, so its
  two entries are held as fields), a list with the references to its items, and an
  \<open>InputAssumptionLattice\<close> with its kind, \<open>iterations\<close>, the reference to its list
  \<open>_assmps\<close>, \<open>is_loop\<close> and \<open>condition\<close>. \<open>next_free\<close> is the next address to
  allocate; \<open>put\<close> writes the fields of an object, \<open>alloc\<close> creates one.
\<close>

type_synonym addr = nat

datatype 'r obj =
    TypeLattice_obj TypeLattice
  | IntervalLattice_obj 'r
  | AssumptionLattice_obj addr addr
  | list_obj "addr list"
  | InputAssumptionLattice_obj Kind "int option" addr bool "string option"

record 'r heap =
  cells :: "addr \<Rightarrow> 'r obj"
  next_free :: addr

definition put :: "'r heap \<Rightarrow> addr \<Rightarrow> 'r obj \<Rightarrow> 'r heap" where
  "put h a v = h\<lparr>cells := (cells h)(a := v)\<rparr>"

definition alloc :: "'r heap \<Rightarrow> 'r obj \<Rightarrow> 'r heap \<times> addr" where
  "alloc h v = (\<lparr>cells = (cells h)(next_free h := v), next_free = Suc (next_free h)\<rparr>, next_free h)"

text \<open>
  \<open>is_bottom()\<close> and \<open>is_top()\<close> of the object at an address, by its class: the flag and
  the rank of a \<open>TypeLattice\<close>, the parameter's predicates for a range, the two loops
  over the components for an \<open>AssumptionLattice\<close>, the kind for an
  \<open>InputAssumptionLattice\<close>. A list has no such method; the model answers \<open>False\<close> for
  it.
\<close>

fun component_is_bottom :: "'r range_ops \<Rightarrow> 'r obj \<Rightarrow> bool" where
  "component_is_bottom ops (TypeLattice_obj t) = TypeLattice_is_bottom t"
| "component_is_bottom ops (IntervalLattice_obj r) = range_is_bottom ops r"
| "component_is_bottom ops (AssumptionLattice_obj t r) = False"
| "component_is_bottom ops (list_obj xs) = False"
| "component_is_bottom ops (InputAssumptionLattice_obj k i l il c) = (k = BOTTOM)"

fun component_is_top :: "'r range_ops \<Rightarrow> 'r obj \<Rightarrow> bool" where
  "component_is_top ops (TypeLattice_obj t) = TypeLattice_is_top t"
| "component_is_top ops (IntervalLattice_obj r) = range_is_top ops r"
| "component_is_top ops (AssumptionLattice_obj t r) = False"
| "component_is_top ops (list_obj xs) = False"
| "component_is_top ops (InputAssumptionLattice_obj k i l il c) = (k = TOP)"

definition is_bottom_h :: "'r range_ops \<Rightarrow> 'r heap \<Rightarrow> addr \<Rightarrow> bool" where
  "is_bottom_h ops h a =
     (case cells h a of
        AssumptionLattice_obj t r \<Rightarrow>
          (if component_is_bottom ops (cells h t) then True
           else if component_is_bottom ops (cells h r) then True
           else False)
      | v \<Rightarrow> component_is_bottom ops v)"

definition is_top_h :: "'r range_ops \<Rightarrow> 'r heap \<Rightarrow> addr \<Rightarrow> bool" where
  "is_top_h ops h a =
     (case cells h a of
        AssumptionLattice_obj t r \<Rightarrow>
          (if \<not> component_is_top ops (cells h t) then False
           else if \<not> component_is_top ops (cells h r) then False
           else True)
      | v \<Rightarrow> component_is_top ops v)"

text \<open>
  \<open>isinstance(x, InputAssumptionLattice)\<close>, the test
  \<open>isinstance(x, InputAssumptionLattice) and x.iterations is None\<close>, and the fields after
  \<open>top()\<close>, which sets the kind.
\<close>

fun obj_isinstance_InputAssumptionLattice :: "'r obj \<Rightarrow> bool" where
  "obj_isinstance_InputAssumptionLattice (InputAssumptionLattice_obj k i l il c) = True"
| "obj_isinstance_InputAssumptionLattice v = False"

fun obj_is_placeholder :: "'r obj \<Rightarrow> bool" where
  "obj_is_placeholder (InputAssumptionLattice_obj k i l il c) = (i = None)"
| "obj_is_placeholder v = False"

fun obj_top :: "'r obj \<Rightarrow> 'r obj" where
  "obj_top (InputAssumptionLattice_obj k i l il c) = InputAssumptionLattice_obj TOP i l il c"
| "obj_top v = v"

text \<open>
  The property \<open>assmps\<close>: the reference to the list \<open>_assmps\<close>, \<open>None\<close> on bottom and on
  top. \<open>items_h\<close> reads the items of a list object.
\<close>

definition assmps_h :: "'r heap \<Rightarrow> addr \<Rightarrow> addr option" where
  "assmps_h h a =
     (case cells h a of
        InputAssumptionLattice_obj k i l il c \<Rightarrow> if k = BOTTOM \<or> k = TOP then None else Some l
      | v \<Rightarrow> None)"

definition items_h :: "'r heap \<Rightarrow> addr \<Rightarrow> addr list option" where
  "items_h h l = (case cells h l of list_obj xs \<Rightarrow> Some xs | v \<Rightarrow> None)"

text \<open>
  A call returns, raises, or runs out of the fuel that bounds the depth of the recursion
  and the number of iterations. The loop of \<open>_join\<close> finishes, executes
  \<open>return self.top()\<close>, or stops with what a call in its body did.
\<close>

datatype outcome = Returned | Raised error | Out_of_fuel

datatype control = Finished | Top_returned | Stopped outcome

text \<open>
  \<open>copy.deepcopy\<close>, which duplicates an object together with everything it refers to.
  The memo table, by which an object reachable twice is duplicated once, is left out:
  the duplicate is exact for an object none of whose parts is reachable twice.
\<close>

fun deepcopy :: "nat \<Rightarrow> 'r heap \<Rightarrow> addr \<Rightarrow> ('r heap \<times> addr) option"
and deepcopy_list :: "nat \<Rightarrow> 'r heap \<Rightarrow> addr list \<Rightarrow> ('r heap \<times> addr list) option" where
  "deepcopy 0 h a = None"
| "deepcopy (Suc n) h a =
     (case cells h a of
        TypeLattice_obj t \<Rightarrow> Some (alloc h (TypeLattice_obj t))
      | IntervalLattice_obj r \<Rightarrow> Some (alloc h (IntervalLattice_obj r))
      | AssumptionLattice_obj t r \<Rightarrow>
          (case deepcopy n h t of
             None \<Rightarrow> None
           | Some (h1, t') \<Rightarrow>
               (case deepcopy n h1 r of
                  None \<Rightarrow> None
                | Some (h2, r') \<Rightarrow> Some (alloc h2 (AssumptionLattice_obj t' r'))))
      | list_obj xs \<Rightarrow>
          (case deepcopy_list n h xs of
             None \<Rightarrow> None
           | Some (h1, xs') \<Rightarrow> Some (alloc h1 (list_obj xs')))
      | InputAssumptionLattice_obj k i l il c \<Rightarrow>
          (case deepcopy n h l of
             None \<Rightarrow> None
           | Some (h1, l') \<Rightarrow> Some (alloc h1 (InputAssumptionLattice_obj k i l' il c))))"
| "deepcopy_list n h [] = Some (h, [])"
| "deepcopy_list n h (x # xs) =
     (case deepcopy n h x of
        None \<Rightarrow> None
      | Some (h1, x') \<Rightarrow>
          (case deepcopy_list n h1 xs of
             None \<Rightarrow> None
           | Some (h2, xs') \<Rightarrow> Some (h2, x' # xs')))"

text \<open>
  The public join on a component of a leaf. On two \<open>TypeLattice\<close> objects the receiver
  adopts the value of \<open>TypeLattice_join\<close> above (\<open>self.replace(other)\<close> in the
  short-circuit, \<open>self.replace(TypeLattice(max(...)))\<close> in the hook). Modelled from the
  spec for the absent \<open>IntervalLattice\<close>: its join writes the receiver only, with the
  join of the parameter.
\<close>

definition component_join_h :: "'r range_ops \<Rightarrow> 'r heap \<Rightarrow> addr \<Rightarrow> addr \<Rightarrow> 'r heap \<times> outcome" where
  "component_join_h ops h self other =
     (case (cells h self, cells h other) of
        (TypeLattice_obj t1, TypeLattice_obj t2) \<Rightarrow>
          (case TypeLattice_join t1 t2 of
             Inl e \<Rightarrow> (h, Raised e)
           | Inr t \<Rightarrow> (put h self (TypeLattice_obj t), Returned))
      | (IntervalLattice_obj r1, IntervalLattice_obj r2) \<Rightarrow>
          (put h self (IntervalLattice_obj (range_join ops r1 r2)), Returned)
      | _ \<Rightarrow> (h, Raised AttributeError))"

text \<open>
  \<open>AssumptionLattice._join\<close>: the join of the type components, then the join of the
  range components, each in place. The two references of the receiver are read once,
  the first join writing a component only.
\<close>

definition AssumptionLattice__join_h :: "'r range_ops \<Rightarrow> 'r heap \<Rightarrow> addr \<Rightarrow> addr \<Rightarrow> 'r heap \<times> outcome" where
  "AssumptionLattice__join_h ops h self other =
     (case (cells h self, cells h other) of
        (AssumptionLattice_obj t1 r1, AssumptionLattice_obj t2 r2) \<Rightarrow>
          (case component_join_h ops h t1 t2 of
             (h1, Returned) \<Rightarrow> component_join_h ops h1 r1 r2
           | (h1, r) \<Rightarrow> (h1, r))
      | _ \<Rightarrow> (h, Raised AttributeError))"

text \<open>
  \<open>len(x.assmps)\<close> and \<open>x.assmps.pop(1)\<close>, with the errors of Python when the property
  is \<open>None\<close> or the list has fewer than two items.
\<close>

definition len_h :: "'r heap \<Rightarrow> addr \<Rightarrow> nat option" where
  "len_h h a =
     (case assmps_h h a of
        None \<Rightarrow> None
      | Some l \<Rightarrow> (case items_h h l of None \<Rightarrow> None | Some xs \<Rightarrow> Some (length xs)))"

definition pop_h :: "'r heap \<Rightarrow> addr \<Rightarrow> error + 'r heap" where
  "pop_h h a =
     (case assmps_h h a of
        None \<Rightarrow> Inl AttributeError
      | Some l \<Rightarrow>
          (case items_h h l of
             None \<Rightarrow> Inl AttributeError
           | Some xs \<Rightarrow>
               if length xs \<le> 1 then Inl IndexError
               else Inr (put h l (list_obj (pop1 xs)))))"

text \<open>
  The public \<open>join\<close>, the hook \<open>InputAssumptionLattice._join\<close> and the loop of the hook.
  The loop runs over the two list objects by index and reads them anew at each step,
  as the iterators of \<open>zip\<close> do. Modelled from the spec, \<open>lattice.py\<close> being absent:
  the short-circuits of the public join, as above; \<open>replace\<close>, by which the receiver
  adopts the full content of its argument, copies the fields of the argument into the
  receiver (\<open>put h self (cells h other)\<close>), references included, so that the receiver
  then shares the list or the components of its argument unless the argument is a
  duplicate.
\<close>

function join_h :: "nat \<Rightarrow> 'r range_ops \<Rightarrow> 'r heap \<Rightarrow> addr \<Rightarrow> addr \<Rightarrow> 'r heap \<times> outcome"
and InputAssumptionLattice__join_h :: "nat \<Rightarrow> 'r range_ops \<Rightarrow> 'r heap \<Rightarrow> addr \<Rightarrow> addr \<Rightarrow> 'r heap \<times> outcome"
and join_loop_h :: "nat \<Rightarrow> 'r range_ops \<Rightarrow> 'r heap \<Rightarrow> addr \<Rightarrow> addr \<Rightarrow> nat \<Rightarrow> 'r heap \<times> control" where
  "join_h 0 ops h self other = (h, Out_of_fuel)"
| "join_h (Suc n) ops h self other =
     (if is_bottom_h ops h self \<or> is_top_h ops h other
      then (put h self (cells h other), Returned)
      else if is_bottom_h ops h other \<or> is_top_h ops h self
      then (h, Returned)
      else
        (case cells h self of
           AssumptionLattice_obj t r \<Rightarrow> AssumptionLattice__join_h ops h self other
         | InputAssumptionLattice_obj k i l il c \<Rightarrow> InputAssumptionLattice__join_h n ops h self other
         | v \<Rightarrow> (h, Raised AttributeError)))"
| "InputAssumptionLattice__join_h n ops h self other =
     (case (cells h self, cells h other) of
        (InputAssumptionLattice_obj k1 i1 l1 il1 c1, InputAssumptionLattice_obj k2 i2 l2 il2 c2) \<Rightarrow>
          if i2 = None then (h, Returned)
          else if i1 = None then
            (case deepcopy n h other of
               None \<Rightarrow> (h, Out_of_fuel)
             | Some (h1, copy) \<Rightarrow> (put h1 self (cells h1 copy), Returned))
          else if i1 \<noteq> i2 then (put h self (obj_top (cells h self)), Returned)
          else
            (case (assmps_h h self, assmps_h h other) of
               (Some self_assmps, Some other_assmps) \<Rightarrow>
                 (case (items_h h self_assmps, items_h h other_assmps) of
                    (Some xs, Some ys) \<Rightarrow>
                      if length xs = length ys then
                        (case join_loop_h n ops h self_assmps other_assmps 0 of
                           (h1, Finished) \<Rightarrow> (h1, Returned)
                         | (h1, Top_returned) \<Rightarrow> (put h1 self (obj_top (cells h1 self)), Returned)
                         | (h1, Stopped r) \<Rightarrow> (h1, r))
                      else if length xs > length ys \<and> length ys > 0 then
                        (if obj_is_placeholder (cells h (ys ! 0))
                             \<and> obj_isinstance_InputAssumptionLattice (cells h (xs ! 0))
                             \<and> obj_isinstance_InputAssumptionLattice (cells h (xs ! 1)) then
                           (case join_h n ops h (xs ! 0) (xs ! 1) of
                              (h1, Returned) \<Rightarrow>
                                (case pop_h h1 self of
                                   Inl e \<Rightarrow> (h1, Raised e)
                                 | Inr h2 \<Rightarrow>
                                     (case (len_h h2 self, len_h h2 other) of
                                        (Some m, Some k) \<Rightarrow>
                                          if m = k then join_h n ops h2 self other
                                          else (h2, Raised AssertionError)
                                      | _ \<Rightarrow> (h2, Raised TypeError)))
                            | (h1, r) \<Rightarrow> (h1, r))
                         else (put h self (obj_top (cells h self)), Returned))
                      else if length ys > length xs \<and> length xs > 0 then
                        (if obj_is_placeholder (cells h (xs ! 0))
                             \<and> obj_isinstance_InputAssumptionLattice (cells h (ys ! 0))
                             \<and> obj_isinstance_InputAssumptionLattice (cells h (ys ! 1)) then
                           (case deepcopy n h other of
                              None \<Rightarrow> (h, Out_of_fuel)
                            | Some (h1, other_copy) \<Rightarrow>
                                (case assmps_h h1 other_copy of
                                   None \<Rightarrow> (h1, Raised TypeError)
                                 | Some copy_assmps \<Rightarrow>
                                     (case items_h h1 copy_assmps of
                                        None \<Rightarrow> (h1, Raised TypeError)
                                      | Some zs \<Rightarrow>
                                          (case join_h n ops h1 (zs ! 0) (zs ! 1) of
                                             (h2, Returned) \<Rightarrow>
                                               (case pop_h h2 other_copy of
                                                  Inl e \<Rightarrow> (h2, Raised e)
                                                | Inr h3 \<Rightarrow>
                                                    (case (len_h h3 self, len_h h3 other_copy) of
                                                       (Some m, Some k) \<Rightarrow>
                                                         if m = k then join_h n ops h3 self other_copy
                                                         else (h3, Raised AssertionError)
                                                     | _ \<Rightarrow> (h3, Raised TypeError)))
                                           | (h2, r) \<Rightarrow> (h2, r)))))
                         else (put h self (obj_top (cells h self)), Returned))
                      else (put h self (obj_top (cells h self)), Returned)
                  | _ \<Rightarrow> (h, Raised TypeError))
             | _ \<Rightarrow> (h, Raised TypeError))
      | _ \<Rightarrow> (h, Raised AttributeError))"
| "join_loop_h 0 ops h self_assmps other_assmps i = (h, Stopped Out_of_fuel)"
| "join_loop_h (Suc n) ops h self_assmps other_assmps i =
     (case (items_h h self_assmps, items_h h other_assmps) of
        (Some xs, Some ys) \<Rightarrow>
          if i < length xs \<and> i < length ys then
            (if obj_is_placeholder (cells h (xs ! i)) then
               (case deepcopy n h (ys ! i) of
                  None \<Rightarrow> (h, Stopped Out_of_fuel)
                | Some (h1, copy) \<Rightarrow>
                    join_loop_h n ops (put h1 (xs ! i) (cells h1 copy)) self_assmps other_assmps (Suc i))
             else if obj_is_placeholder (cells h (ys ! i)) then
               join_loop_h n ops h self_assmps other_assmps (Suc i)
             else if obj_isinstance_InputAssumptionLattice (cells h (xs ! i))
                     = obj_isinstance_InputAssumptionLattice (cells h (ys ! i)) then
               (case join_h n ops h (xs ! i) (ys ! i) of
                  (h1, Returned) \<Rightarrow> join_loop_h n ops h1 self_assmps other_assmps (Suc i)
                | (h1, r) \<Rightarrow> (h1, Stopped r))
             else (h, Top_returned))
          else (h, Finished)
      | _ \<Rightarrow> (h, Stopped (Raised TypeError)))"
  by pat_completeness auto
termination
  by (relation "measure (\<lambda>x. case x of
          Inl (n, ops, h, self, other) \<Rightarrow> 3 * n
        | Inr (Inl (n, ops, h, self, other)) \<Rightarrow> 3 * n + 2
        | Inr (Inr (n, ops, h, l1, l2, i)) \<Rightarrow> 3 * n + 1)") auto

declare InputAssumptionLattice__join_h.simps [simp del]

subsection \<open>Footprints\<close>

text \<open>
  \<open>refs\<close> are the references an object holds. \<open>region h a A\<close> says that the objects
  reachable from \<open>a\<close> form a tree, no object being reached twice, and that \<open>A\<close> is the
  set of their addresses. \<open>frame h h' X\<close> says that every object of \<open>h\<close> outside \<open>X\<close> is
  in \<open>h'\<close> as it was in \<open>h\<close>; \<open>fresh h h'\<close> are the objects created in between.
\<close>

fun refs :: "'r obj \<Rightarrow> addr list" where
  "refs (TypeLattice_obj t) = []"
| "refs (IntervalLattice_obj r) = []"
| "refs (AssumptionLattice_obj t r) = [t, r]"
| "refs (list_obj xs) = xs"
| "refs (InputAssumptionLattice_obj k i l il c) = [l]"

inductive region :: "'r heap \<Rightarrow> addr \<Rightarrow> addr set \<Rightarrow> bool"
  and regions :: "'r heap \<Rightarrow> addr list \<Rightarrow> addr set \<Rightarrow> bool" where
  region_obj:
    "a < next_free h \<Longrightarrow> regions h (refs (cells h a)) R \<Longrightarrow> a \<notin> R \<Longrightarrow> region h a (insert a R)"
| regions_Nil: "regions h [] {}"
| regions_Cons:
    "region h x X \<Longrightarrow> regions h xs R \<Longrightarrow> X \<inter> R = {} \<Longrightarrow> regions h (x # xs) (X \<union> R)"

inductive_cases regions_NilE: "regions h [] R"
inductive_cases regions_ConsE: "regions h (x # xs) R"

definition frame :: "'r heap \<Rightarrow> 'r heap \<Rightarrow> addr set \<Rightarrow> bool" where
  "frame h h' X =
     (next_free h \<le> next_free h' \<and> (\<forall>p. p < next_free h \<longrightarrow> p \<notin> X \<longrightarrow> cells h' p = cells h p))"

definition fresh :: "'r heap \<Rightarrow> 'r heap \<Rightarrow> addr set" where
  "fresh h h' = {next_free h..<next_free h'}"

text \<open>
  What a join does on a receiver with footprint \<open>X\<close> and an argument with footprint
  \<open>Y\<close>: it writes within \<open>X\<close> only, and a receiver that is returned is again a tree,
  made of objects of \<open>X\<close>, of \<open>Y\<close> and of new ones; likewise for the loop, on the rest
  of the two lists. \<open>P_join\<close>, \<open>P_hook\<close> and \<open>P_loop\<close> say this of all calls with fuel
  \<open>n\<close>.
\<close>

definition join_spec ::
  "'r heap \<Rightarrow> addr \<Rightarrow> addr set \<Rightarrow> addr set \<Rightarrow> 'r heap \<times> outcome \<Rightarrow> bool" where
  "join_spec h x X Y res =
     (frame h (fst res) X
      \<and> (snd res = Returned \<longrightarrow>
            (\<exists>X'. region (fst res) x X' \<and> X' \<subseteq> X \<union> Y \<union> fresh h (fst res))))"

definition loop_spec ::
  "'r heap \<Rightarrow> addr list \<Rightarrow> addr set \<Rightarrow> addr set \<Rightarrow> 'r heap \<times> control \<Rightarrow> bool" where
  "loop_spec h xs X Y res =
     (frame h (fst res) X
      \<and> snd res \<noteq> Stopped Returned
      \<and> (snd res = Finished \<or> snd res = Top_returned \<longrightarrow>
            (\<exists>X'. regions (fst res) xs X' \<and> X' \<subseteq> X \<union> Y \<union> fresh h (fst res))))"

definition P_join :: "'r itself \<Rightarrow> nat \<Rightarrow> bool" where
  "P_join t n = (\<forall>(ops :: 'r range_ops) h x y X Y.
      region h x X \<longrightarrow> region h y Y \<longrightarrow> X \<inter> Y = {} \<longrightarrow> join_spec h x X Y (join_h n ops h x y))"

definition P_hook :: "'r itself \<Rightarrow> nat \<Rightarrow> bool" where
  "P_hook t n = (\<forall>(ops :: 'r range_ops) h x y X Y.
      region h x X \<longrightarrow> region h y Y \<longrightarrow> X \<inter> Y = {} \<longrightarrow> join_spec h x X Y (InputAssumptionLattice__join_h n ops h x y))"

definition P_loop :: "'r itself \<Rightarrow> nat \<Rightarrow> bool" where
  "P_loop t n = (\<forall>(ops :: 'r range_ops) h l1 l2 i xs ys X Y.
      items_h h l1 = Some xs \<longrightarrow> items_h h l2 = Some ys \<longrightarrow>
      regions h (drop i xs) X \<longrightarrow> regions h (drop i ys) Y \<longrightarrow> X \<inter> Y = {} \<longrightarrow>
      l1 \<notin> X \<longrightarrow> l2 \<notin> X \<longrightarrow> l1 < next_free h \<longrightarrow> l2 < next_free h \<longrightarrow>
      loop_spec h (drop i xs) X Y (join_loop_h n ops h l1 l2 i))"

subsection \<open>Example heaps\<close>

text \<open>
  \<open>example_heap\<close>: at 0 the receiver, one iteration of a sequence holding one nested
  element with unresolved iterations; at 4 the argument, one iteration of the two blocks
  \<open>[(Int, [0, 10])]\<close> and \<open>[(Float, [5, 20])]\<close>. \<open>shared_heap\<close>: at 0 the receiver with
  the leaves at 2 and 5, at 8 the argument with the same two leaf objects in the other
  order. \<open>repeated_heap\<close>: at 0 the receiver, whose list holds the same bottom leaf
  twice, at 5 the argument with two leaves of its own.
\<close>

definition heap_of :: "'r obj list \<Rightarrow> 'r heap" where
  "heap_of objs =
     \<lparr>cells = (\<lambda>a. if a < length objs then objs ! a else list_obj []),
      next_free = length objs\<rparr>"

definition example_heap :: "interval heap" where
  "example_heap = heap_of
     [InputAssumptionLattice_obj DEFAULT (Some 1) 1 False None,
      list_obj [2],
      InputAssumptionLattice_obj DEFAULT None 3 False None,
      list_obj [],
      InputAssumptionLattice_obj DEFAULT (Some 1) 5 False None,
      list_obj [6, 11],
      InputAssumptionLattice_obj DEFAULT (Some 1) 7 False None,
      list_obj [8],
      AssumptionLattice_obj 9 10,
      TypeLattice_obj (TypeLattice_init Status_Int),
      IntervalLattice_obj (Interval (Some 0) (Some 10)),
      InputAssumptionLattice_obj DEFAULT (Some 1) 12 False None,
      list_obj [13],
      AssumptionLattice_obj 14 15,
      TypeLattice_obj (TypeLattice_init Status_Float),
      IntervalLattice_obj (Interval (Some 5) (Some 20))]"

definition shared_heap :: "interval heap" where
  "shared_heap = heap_of
     [InputAssumptionLattice_obj DEFAULT (Some 1) 1 False None,
      list_obj [2, 5],
      AssumptionLattice_obj 3 4,
      TypeLattice_obj (TypeLattice_init Status_Int),
      IntervalLattice_obj (Interval (Some 0) (Some 10)),
      AssumptionLattice_obj 6 7,
      TypeLattice_obj (TypeLattice_init Status_Float),
      IntervalLattice_obj (Interval (Some 5) (Some 20)),
      InputAssumptionLattice_obj DEFAULT (Some 1) 9 False None,
      list_obj [5, 2]]"

definition repeated_heap :: "interval heap" where
  "repeated_heap = heap_of
     [InputAssumptionLattice_obj DEFAULT (Some 1) 1 False None,
      list_obj [2, 2],
      AssumptionLattice_obj 3 4,
      TypeLattice_obj (TypeLattice_bottom (TypeLattice_init Status_Any)),
      IntervalLattice_obj Interval_bottom,
      InputAssumptionLattice_obj DEFAULT (Some 1) 6 False None,
      list_obj [7, 10],
      AssumptionLattice_obj 8 9,
      TypeLattice_obj (TypeLattice_init Status_Int),
      IntervalLattice_obj (Interval (Some 0) (Some 10)),
      AssumptionLattice_obj 11 12,
      TypeLattice_obj (TypeLattice_init Status_Float),
      IntervalLattice_obj (Interval (Some 5) (Some 20))]"

section \<open>Properties of AssumptionLattice\<close>

text \<open>
  C6: \<open>is_bottom()\<close> of an \<open>AssumptionLattice\<close> is true as soon as one of the two
  fields (type assumption, range assumption) is bottom, whatever the other is, and
  \<open>is_top()\<close> is true only when both fields are top.
\<close>

theorem AssumptionLattice_is_bottom_any_is_top_all:
  "AssumptionLattice_is_bottom ops a =
     (TypeLattice_is_bottom (type_assumption a) \<or> range_is_bottom ops (range_assumption a))
   \<and> AssumptionLattice_is_top ops a =
     (TypeLattice_is_top (type_assumption a) \<and> range_is_top ops (range_assumption a))"
  by (simp add: AssumptionLattice_is_bottom_def AssumptionLattice_is_top_def assumptions_values_def)

theorem AssumptionLattice_is_bottom_any_is_top_all_witness:
  "AssumptionLattice_is_bottom interval_ops
     \<lparr>type_assumption = TypeLattice_bottom (TypeLattice_init Status_Int),
      range_assumption = Interval (Some 0) (Some 10)\<rparr>
   \<and> \<not> AssumptionLattice_is_top interval_ops
     \<lparr>type_assumption = TypeLattice_init Status_Any,
      range_assumption = Interval (Some 0) (Some 10)\<rparr>"
  using AssumptionLattice_is_bottom_any_is_top_all
    [of interval_ops "\<lparr>type_assumption = TypeLattice_bottom (TypeLattice_init Status_Int),
      range_assumption = Interval (Some 0) (Some 10)\<rparr>"]
    AssumptionLattice_is_bottom_any_is_top_all
    [of interval_ops "\<lparr>type_assumption = TypeLattice_init Status_Any,
      range_assumption = Interval (Some 0) (Some 10)\<rparr>"]
  by (simp add: interval_ops_def TypeLattice_is_bottom_def TypeLattice_bottom_def TypeLattice_init_def)

section \<open>Properties of InputAssumptionLattice\<close>

text \<open>
  C5: the hooks \<open>_meet\<close> and \<open>_widening\<close> of \<open>InputAssumptionLattice\<close> fail with
  \<open>NotImplementedError\<close> on every pair of elements, and return no element.
\<close>

theorem meet_widening_not_implemented:
  "InputAssumptionLattice__meet ops self other = Inl NotImplementedError
   \<and> InputAssumptionLattice__widening ops self other = Inl NotImplementedError
   \<and> (\<forall>r. InputAssumptionLattice__meet ops self other \<noteq> Inr r)
   \<and> (\<forall>r. InputAssumptionLattice__widening ops self other \<noteq> Inr r)"
  by (simp add: InputAssumptionLattice__meet_def InputAssumptionLattice__widening_def)

lemma is_top_top [simp]: "InputAssumptionLattice_is_top (InputAssumptionLattice_top x)"
  by (cases x) (simp add: InputAssumptionLattice_is_top_def)

text \<open>
  C3: when the iteration counts of the receiver and of the argument are both resolved
  and differ, the hook \<open>_join\<close> returns the receiver forced to top; so does the public
  \<open>join\<close> whenever neither side is bottom.
\<close>

theorem join_different_iterations_top:
  assumes "iterations self = Some m" and "iterations other = Some n" and "m \<noteq> n"
  shows "InputAssumptionLattice__join ops self other = Inr (InputAssumptionLattice_top self)
     \<and> InputAssumptionLattice_is_top (InputAssumptionLattice_top self)
     \<and> (\<not> InputAssumptionLattice_is_bottom self \<and> \<not> InputAssumptionLattice_is_bottom other \<longrightarrow>
          (\<exists>r. InputAssumptionLattice_join ops self other = Inr r \<and> InputAssumptionLattice_is_top r))"
proof -
  have hook: "InputAssumptionLattice__join ops self other = Inr (InputAssumptionLattice_top self)"
    using assms by (simp add: InputAssumptionLattice__join.simps)
  show ?thesis
    using hook by (auto simp: InputAssumptionLattice_join.simps)
qed


theorem join_different_iterations_top_witness:
  "iterations (InputAssumptionLattice_init (Some 3) (Some [leaf_int_0_10])) = Some 3
   \<and> iterations (InputAssumptionLattice_init (Some 5) (Some [leaf_int_0_10])) = Some 5
   \<and> (3::int) \<noteq> 5
   \<and> InputAssumptionLattice__join interval_ops
         (InputAssumptionLattice_init (Some 3) (Some [leaf_int_0_10]))
         (InputAssumptionLattice_init (Some 5) (Some [leaf_int_0_10]))
       = Inr (IAL TOP (Some 3) [leaf_int_0_10] False None)
   \<and> InputAssumptionLattice_join interval_ops
         (InputAssumptionLattice_init (Some 3) (Some [leaf_int_0_10]))
         (InputAssumptionLattice_init (Some 5) (Some [leaf_int_0_10]))
       = Inr (IAL TOP (Some 3) [leaf_int_0_10] False None)
   \<and> InputAssumptionLattice_is_top (IAL TOP (Some 3) [leaf_int_0_10] False None)"
  using join_different_iterations_top
    [of "InputAssumptionLattice_init (Some 3) (Some [leaf_int_0_10])" 3
        "InputAssumptionLattice_init (Some 5) (Some [leaf_int_0_10])" 5 interval_ops]
  by (simp add: InputAssumptionLattice_init_def InputAssumptionLattice_is_bottom_def
        InputAssumptionLattice_is_top_def
        InputAssumptionLattice_join.simps [of _ "IAL DEFAULT (Some 3) [leaf_int_0_10] False None"])

lemma join_loop_step:
  "join_loop J ops (x # xs) (y # ys) =
     (case position_join J ops x y of
        None \<Rightarrow> Inr (Returned_top (x # xs))
      | Some (Inl e) \<Rightarrow> Inl e
      | Some (Inr r) \<Rightarrow> continue_with r (join_loop J ops xs ys))"
  by (cases x; cases y) (auto split: sum.splits)

declare position_join.simps [simp del]

lemma join_loop_completed:
  "length xs = length ys \<Longrightarrow> length rs = length xs \<Longrightarrow>
   (\<forall>i<length xs. position_join J ops (xs ! i) (ys ! i) = Some (Inr (rs ! i))) \<Longrightarrow>
   join_loop J ops xs ys = Inr (Completed rs)"
proof (induction xs arbitrary: ys rs)
  case Nil
  then show ?case by simp
next
  case (Cons x xs)
  obtain y ys' where ys: "ys = y # ys'" using Cons.prems(1) by (cases ys) auto
  obtain r rs' where rs: "rs = r # rs'" using Cons.prems(2) by (cases rs) auto
  have hd: "position_join J ops x y = Some (Inr r)"
    using Cons.prems(3) [rule_format, of 0] ys rs by simp
  have tl: "\<forall>i<length xs. position_join J ops (xs ! i) (ys' ! i) = Some (Inr (rs' ! i))"
  proof (intro allI impI)
    fix i assume "i < length xs"
    then show "position_join J ops (xs ! i) (ys' ! i) = Some (Inr (rs' ! i))"
      using Cons.prems(3) [rule_format, of "Suc i"] ys rs by simp
  qed
  have "join_loop J ops xs ys' = Inr (Completed rs')"
    using Cons.IH [of ys' rs'] Cons.prems ys rs tl by simp
  then show ?case
    unfolding ys rs join_loop_step using hd by simp
qed

lemma join_loop_returned_top:
  "length xs = length ys \<Longrightarrow> k < length xs \<Longrightarrow>
   position_join J ops (xs ! k) (ys ! k) = None \<Longrightarrow>
   (\<forall>i<k. \<exists>r. position_join J ops (xs ! i) (ys ! i) = Some (Inr r)) \<Longrightarrow>
   \<exists>rs. join_loop J ops xs ys = Inr (Returned_top rs)"
proof (induction xs arbitrary: ys k)
  case Nil
  then show ?case by simp
next
  case (Cons x xs)
  obtain y ys' where ys: "ys = y # ys'" using Cons.prems(1) by (cases ys) auto
  show ?case
  proof (cases k)
    case 0
    then show ?thesis unfolding ys join_loop_step using Cons.prems(3) ys by simp
  next
    case (Suc k')
    obtain r where hd: "position_join J ops x y = Some (Inr r)"
      using Cons.prems(4) [rule_format, of 0] ys Suc by auto
    have "\<forall>i<k'. \<exists>r. position_join J ops (xs ! i) (ys' ! i) = Some (Inr r)"
    proof (intro allI impI)
      fix i assume "i < k'"
      then show "\<exists>r. position_join J ops (xs ! i) (ys' ! i) = Some (Inr r)"
        using Cons.prems(4) [rule_format, of "Suc i"] ys Suc by simp
    qed
    then obtain rs where "join_loop J ops xs ys' = Inr (Returned_top rs)"
      using Cons.IH [of ys' k'] Cons.prems ys Suc by auto
    then show ?thesis unfolding ys join_loop_step using hd by simp
  qed
qed

lemma join_loop_error:
  "length xs = length ys \<Longrightarrow> k < length xs \<Longrightarrow>
   position_join J ops (xs ! k) (ys ! k) = Some (Inl e) \<Longrightarrow>
   (\<forall>i<k. \<exists>r. position_join J ops (xs ! i) (ys ! i) = Some (Inr r)) \<Longrightarrow>
   join_loop J ops xs ys = Inl e"
proof (induction xs arbitrary: ys k)
  case Nil
  then show ?case by simp
next
  case (Cons x xs)
  obtain y ys' where ys: "ys = y # ys'" using Cons.prems(1) by (cases ys) auto
  show ?case
  proof (cases k)
    case 0
    then show ?thesis unfolding ys join_loop_step using Cons.prems(3) ys by simp
  next
    case (Suc k')
    obtain r where hd: "position_join J ops x y = Some (Inr r)"
      using Cons.prems(4) [rule_format, of 0] ys Suc by auto
    have "\<forall>i<k'. \<exists>r. position_join J ops (xs ! i) (ys' ! i) = Some (Inr r)"
    proof (intro allI impI)
      fix i assume "i < k'"
      then show "\<exists>r. position_join J ops (xs ! i) (ys' ! i) = Some (Inr r)"
        using Cons.prems(4) [rule_format, of "Suc i"] ys Suc by simp
    qed
    then have "join_loop J ops xs ys' = Inl e"
      using Cons.IH [of ys' k'] Cons.prems ys Suc by auto
    then show ?thesis unfolding ys join_loop_step using hd by simp
  qed
qed

lemma join_equal_length:
  assumes "assmps self = Some self_assmps" and "assmps other = Some other_assmps"
    and "iterations self = Some n" and "iterations other = Some n"
    and "length self_assmps = length other_assmps"
  shows "InputAssumptionLattice_join ops self other =
     (case join_loop (\<lambda>a b. InputAssumptionLattice_join ops a b) ops self_assmps other_assmps of
        Inl e \<Rightarrow> Inl e
      | Inr (Completed r) \<Rightarrow> Inr (set_assmps self r)
      | Inr (Returned_top r) \<Rightarrow> Inr (InputAssumptionLattice_top (set_assmps self r)))"
proof -
  have "\<not> InputAssumptionLattice_is_bottom self" "\<not> InputAssumptionLattice_is_top self"
    "\<not> InputAssumptionLattice_is_bottom other" "\<not> InputAssumptionLattice_is_top other"
    using assms(1,2) by (auto simp: assmps_def split: if_splits)
  then show ?thesis
    using assms
    by (simp add: InputAssumptionLattice_join.simps [of ops self other]
          InputAssumptionLattice__join.simps [of ops self other])
qed

text \<open>
  C2, as amended: for two elements that are neither top nor bottom, with equal resolved
  iteration counts and sequences of equal length, \<open>join\<close> works position by position,
  in order, as \<open>position_join\<close> says, where the rule for a nested element with unresolved
  iterations takes precedence over the comparison of kinds. When every position gives
  an element, the result is the receiver with these elements as its sequence; when the
  first position that gives no element is one where the two sides differ in kind and
  neither is a nested element with unresolved iterations, the result is top; when it is
  one where the join of the two elements fails, the join fails with that error.
\<close>

theorem join_position_wise:
  assumes "assmps self = Some self_assmps" and "assmps other = Some other_assmps"
    and "iterations self = Some n" and "iterations other = Some n"
    and "length self_assmps = length other_assmps"
  shows "((\<forall>i<length self_assmps.
            position_join (InputAssumptionLattice_join ops) ops (self_assmps ! i) (other_assmps ! i)
              = Some (Inr (rs ! i)))
          \<and> length rs = length self_assmps
          \<longrightarrow> InputAssumptionLattice_join ops self other = Inr (set_assmps self rs))
     \<and> ((\<exists>k<length self_assmps.
            position_join (InputAssumptionLattice_join ops) ops (self_assmps ! k) (other_assmps ! k) = None
            \<and> (\<forall>i<k. \<exists>r. position_join (InputAssumptionLattice_join ops) ops
                             (self_assmps ! i) (other_assmps ! i) = Some (Inr r)))
          \<longrightarrow> (\<exists>r. InputAssumptionLattice_join ops self other = Inr r
                    \<and> InputAssumptionLattice_is_top r))
     \<and> ((\<exists>k<length self_assmps.
            position_join (InputAssumptionLattice_join ops) ops (self_assmps ! k) (other_assmps ! k)
              = Some (Inl e)
            \<and> (\<forall>i<k. \<exists>r. position_join (InputAssumptionLattice_join ops) ops
                             (self_assmps ! i) (other_assmps ! i) = Some (Inr r)))
          \<longrightarrow> InputAssumptionLattice_join ops self other = Inl e)"
proof (intro conjI impI)
  note eq = join_equal_length [OF assms, of ops]
  {
    assume "(\<forall>i<length self_assmps.
            position_join (InputAssumptionLattice_join ops) ops (self_assmps ! i) (other_assmps ! i)
              = Some (Inr (rs ! i))) \<and> length rs = length self_assmps"
    then have "join_loop (InputAssumptionLattice_join ops) ops self_assmps other_assmps
                 = Inr (Completed rs)"
      using join_loop_completed [OF assms(5), of rs] by blast
    then show "InputAssumptionLattice_join ops self other = Inr (set_assmps self rs)"
      using eq by simp
  }
  {
    assume "\<exists>k<length self_assmps.
            position_join (InputAssumptionLattice_join ops) ops (self_assmps ! k) (other_assmps ! k) = None
            \<and> (\<forall>i<k. \<exists>r. position_join (InputAssumptionLattice_join ops) ops
                             (self_assmps ! i) (other_assmps ! i) = Some (Inr r))"
    then obtain out where "join_loop (InputAssumptionLattice_join ops) ops self_assmps other_assmps
                 = Inr (Returned_top out)"
      using join_loop_returned_top [OF assms(5)] by blast
    then show "\<exists>r. InputAssumptionLattice_join ops self other = Inr r
                    \<and> InputAssumptionLattice_is_top r"
      using eq by simp
  }
  {
    assume "\<exists>k<length self_assmps.
            position_join (InputAssumptionLattice_join ops) ops (self_assmps ! k) (other_assmps ! k)
              = Some (Inl e)
            \<and> (\<forall>i<k. \<exists>r. position_join (InputAssumptionLattice_join ops) ops
                             (self_assmps ! i) (other_assmps ! i) = Some (Inr r))"
    then have "join_loop (InputAssumptionLattice_join ops) ops self_assmps other_assmps = Inl e"
      using join_loop_error [OF assms(5)] by blast
    then show "InputAssumptionLattice_join ops self other = Inl e"
      using eq by simp
  }
qed

lemma leaf_join_example:
  "position_join J interval_ops leaf_int_0_10 leaf_float_5_20 = Some (Inr leaf_float_0_20)"
  by (simp add: position_join.simps leaf_int_0_10_def leaf_float_5_20_def leaf_float_0_20_def
      AssumptionLattice_join_def AssumptionLattice__join_def AssumptionLattice_is_bottom_def
      AssumptionLattice_is_top_def assumptions_values_def interval_ops_def
      TypeLattice_join_def TypeLattice__join_def TypeLattice_is_bottom_def TypeLattice_is_top_def
      TypeLattice_element_def TypeLattice_init_def Status_max_def)

lemma leaf_join_example2:
  "position_join J interval_ops leaf_float_5_20 leaf_int_0_10 = Some (Inr leaf_float_0_20)"
  by (simp add: position_join.simps leaf_int_0_10_def leaf_float_5_20_def leaf_float_0_20_def
      AssumptionLattice_join_def AssumptionLattice__join_def AssumptionLattice_is_bottom_def
      AssumptionLattice_is_top_def assumptions_values_def interval_ops_def
      TypeLattice_join_def TypeLattice__join_def TypeLattice_is_bottom_def TypeLattice_is_top_def
      TypeLattice_element_def TypeLattice_init_def Status_max_def)

lemma placeholder_example:
  "position_join J ops (Nested placeholder) (Nested block_1) = Some (Inr (Nested block_1))"
  by (simp add: position_join.simps placeholder_def InputAssumptionLattice_init_def)

lemma kinds_differ_example:
  "position_join J ops leaf_int_0_10 (Nested block_1) = None"
  by (simp add: position_join.simps leaf_int_0_10_def block_1_def InputAssumptionLattice_init_def)

text \<open>
  The claim as stated sends every position where the two sides differ in kind to top.
  Here the receiver holds a leaf and the argument a nested element with unresolved
  iterations, and the other way round: the two positions differ in kind, yet the join
  returns the sequence with the leaf, which is not top.
\<close>

theorem kinds_differ_counterexample:
  "isinstance_InputAssumptionLattice leaf_int_0_10
     \<noteq> isinstance_InputAssumptionLattice (Nested placeholder)
   \<and> InputAssumptionLattice_join interval_ops
        (InputAssumptionLattice_init (Some 1) (Some [leaf_int_0_10]))
        (InputAssumptionLattice_init (Some 1) (Some [Nested placeholder]))
      = Inr (InputAssumptionLattice_init (Some 1) (Some [leaf_int_0_10]))
   \<and> InputAssumptionLattice_join interval_ops
        (InputAssumptionLattice_init (Some 1) (Some [Nested placeholder]))
        (InputAssumptionLattice_init (Some 1) (Some [leaf_int_0_10]))
      = Inr (InputAssumptionLattice_init (Some 1) (Some [leaf_int_0_10]))
   \<and> \<not> InputAssumptionLattice_is_top
          (InputAssumptionLattice_init (Some 1) (Some [leaf_int_0_10])
             :: interval InputAssumptionLattice)"
  by code_simp

theorem join_position_wise_witness:
  "InputAssumptionLattice_join interval_ops
      (InputAssumptionLattice_init (Some 2) (Some [leaf_int_0_10, Nested placeholder]))
      (InputAssumptionLattice_init (Some 2) (Some [leaf_float_5_20, Nested block_1]))
    = Inr (InputAssumptionLattice_init (Some 2) (Some [leaf_float_0_20, Nested block_1]))
   \<and> (\<exists>r. InputAssumptionLattice_join interval_ops
             (InputAssumptionLattice_init (Some 2) (Some [leaf_float_5_20, leaf_int_0_10]))
             (InputAssumptionLattice_init (Some 2) (Some [leaf_int_0_10, Nested block_1]))
           = Inr r \<and> InputAssumptionLattice_is_top r)"
proof -
  let ?a = "InputAssumptionLattice_init (Some 2) (Some [leaf_int_0_10, Nested placeholder])
              :: interval InputAssumptionLattice"
  let ?b = "InputAssumptionLattice_init (Some 2) (Some [leaf_float_5_20, Nested block_1])
              :: interval InputAssumptionLattice"
  let ?c = "InputAssumptionLattice_init (Some 2) (Some [leaf_float_5_20, leaf_int_0_10])
              :: interval InputAssumptionLattice"
  let ?d = "InputAssumptionLattice_init (Some 2) (Some [leaf_int_0_10, Nested block_1])
              :: interval InputAssumptionLattice"
  have a: "assmps ?a = Some [leaf_int_0_10, Nested placeholder]" "iterations ?a = Some 2"
    and b: "assmps ?b = Some [leaf_float_5_20, Nested block_1]" "iterations ?b = Some 2"
    and c: "assmps ?c = Some [leaf_float_5_20, leaf_int_0_10]" "iterations ?c = Some 2"
    and d: "assmps ?d = Some [leaf_int_0_10, Nested block_1]" "iterations ?d = Some 2"
    by (simp_all add: InputAssumptionLattice_init_def assmps_def
        InputAssumptionLattice_is_bottom_def InputAssumptionLattice_is_top_def)
  have pos: "\<forall>i<length [leaf_int_0_10, Nested placeholder].
       position_join (InputAssumptionLattice_join interval_ops) interval_ops
         ([leaf_int_0_10, Nested placeholder] ! i) ([leaf_float_5_20, Nested block_1] ! i)
       = Some (Inr ([leaf_float_0_20, Nested block_1] ! i))"
    by (simp add: All_less_Suc leaf_join_example placeholder_example)
  have differ: "\<exists>k<length [leaf_float_5_20, leaf_int_0_10].
       position_join (InputAssumptionLattice_join interval_ops) interval_ops
         ([leaf_float_5_20, leaf_int_0_10] ! k) ([leaf_int_0_10, Nested block_1] ! k) = None
       \<and> (\<forall>i<k. \<exists>r. position_join (InputAssumptionLattice_join interval_ops) interval_ops
              ([leaf_float_5_20, leaf_int_0_10] ! i) ([leaf_int_0_10, Nested block_1] ! i)
            = Some (Inr r))"
  proof (intro exI [of _ 1] conjI)
    show "1 < length [leaf_float_5_20, leaf_int_0_10]" by simp
    show "position_join (InputAssumptionLattice_join interval_ops) interval_ops
         ([leaf_float_5_20, leaf_int_0_10] ! 1) ([leaf_int_0_10, Nested block_1] ! 1) = None"
      by (simp add: kinds_differ_example)
    show "\<forall>i<1. \<exists>r. position_join (InputAssumptionLattice_join interval_ops) interval_ops
              ([leaf_float_5_20, leaf_int_0_10] ! i) ([leaf_int_0_10, Nested block_1] ! i)
            = Some (Inr r)"
      by (simp add: leaf_join_example2)
  qed
  show ?thesis
    using join_position_wise [OF a(1) b(1) a(2) b(2), of interval_ops
            "[leaf_float_0_20, Nested block_1]"] pos
      join_position_wise [OF c(1) d(1) c(2) d(2), of interval_ops] differ
    by (simp add: InputAssumptionLattice_init_def)
qed

lemma pop1_fold:
  "1 < length xs \<Longrightarrow> pop1 (xs[0 := v]) = v # drop 2 xs"
  by (cases xs; cases "tl xs") (auto simp: pop1_def)

lemma join_reaches_hook:
  assumes "assmps self = Some self_assmps" and "assmps other = Some other_assmps"
  shows "InputAssumptionLattice_join ops self other = InputAssumptionLattice__join ops self other"
proof -
  have "\<not> InputAssumptionLattice_is_bottom self" "\<not> InputAssumptionLattice_is_top self"
    "\<not> InputAssumptionLattice_is_bottom other" "\<not> InputAssumptionLattice_is_top other"
    using assms by (auto simp: assmps_def split: if_splits)
  then show ?thesis
    by (simp add: InputAssumptionLattice_join.simps [of ops self other])
qed

lemma join_self_longer:
  assumes "assmps self = Some sa" and "assmps other = Some oa"
    and "iterations self = Some n" and "iterations other = Some n"
    and "fold_condition sa oa"
  shows "InputAssumptionLattice_join ops self other =
     (case InputAssumptionLattice_join ops (the_nested (sa ! 0)) (the_nested (sa ! 1)) of
        Inl e \<Rightarrow> Inl e
      | Inr folded \<Rightarrow>
          if length sa = Suc (length oa)
          then InputAssumptionLattice_join ops (set_assmps self (Nested folded # drop 2 sa)) other
          else Inl AssertionError)"
proof -
  have len: "1 < length sa" "length oa < length sa" "0 < length oa" "length sa \<noteq> length oa"
    using assms(5) by (cases oa; auto simp: fold_condition_def)+
  have "InputAssumptionLattice__join ops self other =
     (case InputAssumptionLattice_join ops (the_nested (sa ! 0)) (the_nested (sa ! 1)) of
        Inl e \<Rightarrow> Inl e
      | Inr folded \<Rightarrow>
          if length sa = Suc (length oa)
          then InputAssumptionLattice_join ops (set_assmps self (Nested folded # drop 2 sa)) other
          else Inl AssertionError)"
    using assms len
    by (subst InputAssumptionLattice__join.simps)
       (auto simp: fold_condition_def pop1_fold Let_def split: sum.splits)
  then show ?thesis using join_reaches_hook [OF assms(1,2)] by simp
qed

lemma join_other_longer:
  assumes "assmps self = Some sa" and "assmps other = Some oa"
    and "iterations self = Some n" and "iterations other = Some n"
    and "fold_condition oa sa"
  shows "InputAssumptionLattice_join ops self other =
     (case InputAssumptionLattice_join ops (the_nested (oa ! 0)) (the_nested (oa ! 1)) of
        Inl e \<Rightarrow> Inl e
      | Inr folded \<Rightarrow>
          if length oa = Suc (length sa)
          then InputAssumptionLattice_join ops self (set_assmps other (Nested folded # drop 2 oa))
          else Inl AssertionError)"
proof -
  have len: "1 < length oa" "length sa < length oa" "0 < length sa" "length sa \<noteq> length oa"
    using assms(5) by (cases sa; auto simp: fold_condition_def)+
  have "InputAssumptionLattice__join ops self other =
     (case InputAssumptionLattice_join ops (the_nested (oa ! 0)) (the_nested (oa ! 1)) of
        Inl e \<Rightarrow> Inl e
      | Inr folded \<Rightarrow>
          if length oa = Suc (length sa)
          then InputAssumptionLattice_join ops self (set_assmps other (Nested folded # drop 2 oa))
          else Inl AssertionError)"
    using assms len
    by (subst InputAssumptionLattice__join.simps)
       (auto simp: fold_condition_def pop1_fold Let_def split: sum.splits)
  then show ?thesis using join_reaches_hook [OF assms(1,2)] by simp
qed

lemma join_no_fold:
  assumes "assmps self = Some sa" and "assmps other = Some oa"
    and "iterations self = Some n" and "iterations other = Some n"
    and "length sa \<noteq> length oa"
    and "\<not> fold_condition sa oa" and "\<not> fold_condition oa sa"
  shows "InputAssumptionLattice_join ops self other = Inr (InputAssumptionLattice_top self)"
proof -
  have "InputAssumptionLattice__join ops self other = Inr (InputAssumptionLattice_top self)"
    using assms
    by (subst InputAssumptionLattice__join.simps)
       (auto simp: fold_condition_def Let_def split: sum.splits)
  then show ?thesis using join_reaches_hook [OF assms(1,2)] by simp
qed

text \<open>
  C1, as amended: for two elements that are neither top nor bottom, with equal resolved
  iteration counts and sequences of different lengths, \<open>join\<close> attempts the fold when
  the shorter sequence is not empty and starts with a nested element with unresolved
  iterations while the first two elements of the longer sequence are nested, resolved
  or not. When the longer sequence has exactly one element more and the join of its
  first two elements returns an element, this element takes the place of the two and
  the whole join is retried on the shortened sequence. When the shapes match this
  pattern on neither side, the receiver collapses to top.
\<close>

theorem join_length_reconciliation:
  assumes "assmps self = Some sa" and "assmps other = Some oa"
    and "iterations self = Some n" and "iterations other = Some n"
    and "length sa \<noteq> length oa"
  shows "(fold_condition sa oa \<and> length sa = Suc (length oa)
            \<and> InputAssumptionLattice_join ops (the_nested (sa ! 0)) (the_nested (sa ! 1))
                = Inr folded \<longrightarrow>
            InputAssumptionLattice_join ops self other =
              InputAssumptionLattice_join ops (set_assmps self (Nested folded # drop 2 sa)) other)
     \<and> (fold_condition oa sa \<and> length oa = Suc (length sa)
            \<and> InputAssumptionLattice_join ops (the_nested (oa ! 0)) (the_nested (oa ! 1))
                = Inr folded \<longrightarrow>
            InputAssumptionLattice_join ops self other =
              InputAssumptionLattice_join ops self (set_assmps other (Nested folded # drop 2 oa)))
     \<and> (\<not> fold_condition sa oa \<and> \<not> fold_condition oa sa \<longrightarrow>
            InputAssumptionLattice_join ops self other = Inr (InputAssumptionLattice_top self))"
proof (intro conjI impI)
  assume "fold_condition sa oa \<and> length sa = Suc (length oa)
            \<and> InputAssumptionLattice_join ops (the_nested (sa ! 0)) (the_nested (sa ! 1))
                = Inr folded"
  then show "InputAssumptionLattice_join ops self other =
      InputAssumptionLattice_join ops (set_assmps self (Nested folded # drop 2 sa)) other"
    using join_self_longer [OF assms(1-4), of ops] by simp
next
  assume "fold_condition oa sa \<and> length oa = Suc (length sa)
            \<and> InputAssumptionLattice_join ops (the_nested (oa ! 0)) (the_nested (oa ! 1))
                = Inr folded"
  then show "InputAssumptionLattice_join ops self other =
      InputAssumptionLattice_join ops self (set_assmps other (Nested folded # drop 2 oa))"
    using join_other_longer [OF assms(1-4), of ops] by simp
next
  assume "\<not> fold_condition sa oa \<and> \<not> fold_condition oa sa"
  then show "InputAssumptionLattice_join ops self other = Inr (InputAssumptionLattice_top self)"
    using join_no_fold [OF assms, of ops] by simp
qed

text \<open>
  The claim as stated asks for the pattern on the longer side: an unresolved nested
  element followed by two nested, resolved elements. In the first input the longer
  sequence consists of two nested, resolved elements and the unresolved one is the only
  element of the shorter sequence; in the second the longer sequence is an unresolved
  nested element followed by one resolved nested element, so that one of the two folded
  elements is unresolved. Neither longer sequence has the claimed pattern, yet the join
  folds in both and the result is not top.
\<close>

theorem claimed_fold_pattern_counterexample:
  "iterations (InputAssumptionLattice_init (Some 1) (Some [Nested block_1, Nested block_2])
                :: interval InputAssumptionLattice) = Some 1
   \<and> iterations (InputAssumptionLattice_init (Some 1) (Some [Nested placeholder])
                :: interval InputAssumptionLattice) = Some 1
   \<and> length [Nested block_1, Nested block_2] \<noteq> length [Nested placeholder]
   \<and> \<not> claimed_fold_pattern [Nested block_1, Nested block_2]
   \<and> InputAssumptionLattice_join interval_ops
        (InputAssumptionLattice_init (Some 1) (Some [Nested block_1, Nested block_2]))
        (InputAssumptionLattice_init (Some 1) (Some [Nested placeholder]))
      = Inr (InputAssumptionLattice_init (Some 1) (Some [Nested block_12]))
   \<and> \<not> InputAssumptionLattice_is_top
          (InputAssumptionLattice_init (Some 1) (Some [Nested block_12])
             :: interval InputAssumptionLattice)
   \<and> iterations (InputAssumptionLattice_init (Some 1) (Some [Nested placeholder, Nested block_1])
                :: interval InputAssumptionLattice) = Some 1
   \<and> length [Nested placeholder, Nested block_1] \<noteq> length [Nested placeholder]
   \<and> \<not> claimed_fold_pattern [Nested placeholder, Nested block_1]
   \<and> iterations placeholder = None
   \<and> InputAssumptionLattice_join interval_ops
        (InputAssumptionLattice_init (Some 1) (Some [Nested placeholder, Nested block_1]))
        (InputAssumptionLattice_init (Some 1) (Some [Nested placeholder]))
      = Inr (InputAssumptionLattice_init (Some 1) (Some [Nested block_1]))
   \<and> \<not> InputAssumptionLattice_is_top
          (InputAssumptionLattice_init (Some 1) (Some [Nested block_1])
             :: interval InputAssumptionLattice)"
  by code_simp

theorem join_length_reconciliation_witness:
  "InputAssumptionLattice_join interval_ops
      (InputAssumptionLattice_init (Some 1) (Some [Nested block_1, Nested block_2]))
      (InputAssumptionLattice_init (Some 1) (Some [Nested placeholder]))
    = Inr (InputAssumptionLattice_init (Some 1) (Some [Nested block_12]))
   \<and> InputAssumptionLattice_join interval_ops
      (InputAssumptionLattice_init (Some 1) (Some [Nested placeholder]))
      (InputAssumptionLattice_init (Some 1) (Some [Nested block_1, Nested block_2]))
    = Inr (InputAssumptionLattice_init (Some 1) (Some [Nested block_12]))
   \<and> InputAssumptionLattice_join interval_ops
      (InputAssumptionLattice_init (Some 1) (Some [leaf_int_0_10, leaf_int_0_10]))
      (InputAssumptionLattice_init (Some 1) (Some [leaf_int_0_10]))
    = Inr (InputAssumptionLattice_top
            (InputAssumptionLattice_init (Some 1) (Some [leaf_int_0_10, leaf_int_0_10])))"
proof -
  let ?long = "InputAssumptionLattice_init (Some 1) (Some [Nested block_1, Nested block_2])
                 :: interval InputAssumptionLattice"
  let ?short = "InputAssumptionLattice_init (Some 1) (Some [Nested placeholder])
                 :: interval InputAssumptionLattice"
  let ?two = "InputAssumptionLattice_init (Some 1) (Some [leaf_int_0_10, leaf_int_0_10])
                 :: interval InputAssumptionLattice"
  let ?one = "InputAssumptionLattice_init (Some 1) (Some [leaf_int_0_10])
                 :: interval InputAssumptionLattice"
  have long: "assmps ?long = Some [Nested block_1, Nested block_2]" "iterations ?long = Some 1"
    and short: "assmps ?short = Some [Nested placeholder]" "iterations ?short = Some 1"
    and two: "assmps ?two = Some [leaf_int_0_10, leaf_int_0_10]" "iterations ?two = Some 1"
    and one: "assmps ?one = Some [leaf_int_0_10]" "iterations ?one = Some 1"
    by (simp_all add: InputAssumptionLattice_init_def assmps_def
        InputAssumptionLattice_is_bottom_def InputAssumptionLattice_is_top_def)
  have cond: "fold_condition [Nested block_1, Nested block_2] [Nested (placeholder :: interval InputAssumptionLattice)]"
    by (simp add: fold_condition_def placeholder_def InputAssumptionLattice_init_def)
  have no_cond: "\<not> fold_condition [leaf_int_0_10, leaf_int_0_10] [leaf_int_0_10]"
    "\<not> fold_condition [leaf_int_0_10] [leaf_int_0_10, leaf_int_0_10]"
    by (simp_all add: fold_condition_def leaf_int_0_10_def)
  have fold: "InputAssumptionLattice_join interval_ops block_1 block_2 = Inr block_12"
    by code_simp
  have retry1: "InputAssumptionLattice_join interval_ops
      (set_assmps ?long [Nested block_12]) ?short
      = Inr (InputAssumptionLattice_init (Some 1) (Some [Nested block_12]))"
    by code_simp
  have retry2: "InputAssumptionLattice_join interval_ops
      ?short (set_assmps ?long [Nested block_12])
      = Inr (InputAssumptionLattice_init (Some 1) (Some [Nested block_12]))"
    by code_simp
  show ?thesis
    using join_length_reconciliation [OF long(1) short(1) long(2) short(2), of interval_ops block_12]
      join_length_reconciliation [OF short(1) long(1) short(2) long(2), of interval_ops block_12]
      join_length_reconciliation [OF two(1) one(1) two(2) one(2), of interval_ops block_12]
      cond no_cond fold retry1 retry2
    by simp
qed

text \<open>
  C4: the order and the join disagree when the resolved iteration counts differ. With
  3 and 5 iterations over the same one-element sequence, \<open>less_equal\<close> holds, yet the
  join is the receiver forced to top, which is not the argument.
\<close>

theorem less_equal_ignores_iterations:
  "InputAssumptionLattice_less_equal interval_ops
      (InputAssumptionLattice_init (Some 3) (Some [leaf_int_0_10]))
      (InputAssumptionLattice_init (Some 5) (Some [leaf_int_0_10])) = Inr True
   \<and> InputAssumptionLattice_join interval_ops
      (InputAssumptionLattice_init (Some 3) (Some [leaf_int_0_10]))
      (InputAssumptionLattice_init (Some 5) (Some [leaf_int_0_10]))
      = Inr (InputAssumptionLattice_top (InputAssumptionLattice_init (Some 3) (Some [leaf_int_0_10])))
   \<and> InputAssumptionLattice_top (InputAssumptionLattice_init (Some 3) (Some [leaf_int_0_10]))
      \<noteq> (InputAssumptionLattice_init (Some 5) (Some [leaf_int_0_10]) :: interval InputAssumptionLattice)
   \<and> \<not> InputAssumptionLattice_is_top
        (InputAssumptionLattice_init (Some 5) (Some [leaf_int_0_10]) :: interval InputAssumptionLattice)"
  by code_simp

section \<open>Properties of Store\<close>

lemma has_item_getitem: "has_item d t \<Longrightarrow> \<exists>v. getitem d t = Inr v"
  by (cases d) (auto split: option.splits)

lemma not_has_item_getitem: "\<not> has_item d t \<Longrightarrow> getitem d t = Inl (KeyError (Type_key t))"
  by (cases d) (auto split: option.splits)

lemma fresh_element_registered:
  "has_item lats (var_typ v) \<Longrightarrow> has_item args (var_typ v) \<Longrightarrow>
   \<exists>cls kwargs. getitem lats (var_typ v) = Inr cls \<and> getitem args (var_typ v) = Inr kwargs
      \<and> fresh_element lats args v = Inr (cls kwargs)"
  using has_item_getitem [of lats "var_typ v"] has_item_getitem [of args "var_typ v"]
  by (auto simp: fresh_element_def)

lemma fresh_element_unregistered:
  "\<not> has_item lats (var_typ v) \<Longrightarrow> fresh_element lats args v = Inl (KeyError (Type_key (var_typ v)))"
  by (simp add: fresh_element_def not_has_item_getitem)

lemma fresh_element_cases:
  "(\<exists>e. fresh_element lats args v = Inr e) \<or>
   fresh_element lats args v = Inl (KeyError (Type_key (var_typ v)))"
  using has_item_getitem [of lats "var_typ v"] has_item_getitem [of args "var_typ v"]
    not_has_item_getitem [of lats "var_typ v"] not_has_item_getitem [of args "var_typ v"]
  by (cases "has_item lats (var_typ v)"; cases "has_item args (var_typ v)")
     (auto simp: fresh_element_def)

lemma store_comprehension_step:
  "fresh_element lats args v = Inr e \<Longrightarrow>
   store_comprehension lats args (v # vs) acc = store_comprehension lats args vs (acc(v \<mapsto> e))"
  by simp

lemma store_comprehension_complete:
  "(\<forall>v\<in>set vs. has_item lats (var_typ v) \<and> has_item args (var_typ v)) \<Longrightarrow>
   \<exists>m. store_comprehension lats args vs acc = Inr m
     \<and> dom m = dom acc \<union> set vs
     \<and> (\<forall>v\<in>set vs. fresh_element lats args v = Inr (the (m v)))
     \<and> (\<forall>v. v \<notin> set vs \<longrightarrow> m v = acc v)"
proof (induction vs arbitrary: acc)
  case Nil
  then show ?case by simp
next
  case (Cons v vs)
  obtain element where el: "fresh_element lats args v = Inr element"
    using fresh_element_registered [of lats v args] Cons.prems by auto
  have "\<forall>w\<in>set vs. has_item lats (var_typ w) \<and> has_item args (var_typ w)"
    using Cons.prems by simp
  from Cons.IH [OF this, of "acc(v \<mapsto> element)"]
  obtain m where m: "store_comprehension lats args vs (acc(v \<mapsto> element)) = Inr m"
    "dom m = dom (acc(v \<mapsto> element)) \<union> set vs"
    "\<forall>w\<in>set vs. fresh_element lats args w = Inr (the (m w))"
    "\<forall>w. w \<notin> set vs \<longrightarrow> m w = (acc(v \<mapsto> element)) w"
    by blast
  have hd: "fresh_element lats args v = Inr (the (m v))"
  proof (cases "v \<in> set vs")
    case True
    then show ?thesis using m(3) by blast
  next
    case False
    then have "m v = Some element" using m(4) by simp
    then show ?thesis using el by simp
  qed
  have 1: "store_comprehension lats args (v # vs) acc = Inr m"
    using store_comprehension_step [OF el] m(1) by simp
  have 2: "dom m = dom acc \<union> set (v # vs)" using m(2) by auto
  have 3: "\<forall>w\<in>set (v # vs). fresh_element lats args w = Inr (the (m w))"
    using hd m(3) by simp
  have 4: "\<forall>w. w \<notin> set (v # vs) \<longrightarrow> m w = acc w" using m(4) by simp
  show ?case using 1 2 3 4 by blast
qed

lemma store_comprehension_fails:
  "\<exists>v\<in>set vs. \<not> has_item lats (var_typ v) \<Longrightarrow>
   \<exists>v\<in>set vs. store_comprehension lats args vs acc = Inl (KeyError (Type_key (var_typ v)))"
proof (induction vs arbitrary: acc)
  case Nil
  then show ?case by simp
next
  case (Cons v vs)
  show ?case
  proof (cases "\<exists>e. fresh_element lats args v = Inr e")
    case True
    then obtain e where e: "fresh_element lats args v = Inr e" by blast
    then have "has_item lats (var_typ v)"
      using fresh_element_unregistered [of lats v args] by auto
    then have "\<exists>w\<in>set vs. \<not> has_item lats (var_typ w)" using Cons.prems by auto
    from Cons.IH [OF this, of "acc(v \<mapsto> e)"]
    obtain w where "w \<in> set vs"
      "store_comprehension lats args vs (acc(v \<mapsto> e)) = Inl (KeyError (Type_key (var_typ w)))"
      by blast
    then have "w \<in> set (v # vs)"
      "store_comprehension lats args (v # vs) acc = Inl (KeyError (Type_key (var_typ w)))"
      using store_comprehension_step [OF e] by simp_all
    then show ?thesis by blast
  next
    case False
    then have "fresh_element lats args v = Inl (KeyError (Type_key (var_typ v)))"
      using fresh_element_cases [of lats args v] by blast
    then show ?thesis by simp
  qed
qed

lemma store_comprehension_names_missing:
  "\<exists>v\<in>set vs. \<not> has_item lats (var_typ v) \<Longrightarrow>
   \<forall>v\<in>set vs. has_item args (var_typ v) \<Longrightarrow>
   \<exists>v\<in>set vs. \<not> has_item lats (var_typ v)
      \<and> store_comprehension lats args vs acc = Inl (KeyError (Type_key (var_typ v)))"
proof (induction vs arbitrary: acc)
  case Nil
  then show ?case by simp
next
  case (Cons v vs)
  show ?case
  proof (cases "has_item lats (var_typ v)")
    case True
    then obtain e where e: "fresh_element lats args v = Inr e"
      using fresh_element_registered [of lats v args] Cons.prems(2) by auto
    have "\<exists>w\<in>set vs. \<not> has_item lats (var_typ w)" using Cons.prems(1) True by auto
    moreover have "\<forall>w\<in>set vs. has_item args (var_typ w)" using Cons.prems(2) by simp
    ultimately obtain w where "w \<in> set vs" "\<not> has_item lats (var_typ w)"
      "store_comprehension lats args vs (acc(v \<mapsto> e)) = Inl (KeyError (Type_key (var_typ w)))"
      using Cons.IH [of "acc(v \<mapsto> e)"] by blast
    then have "w \<in> set (v # vs)" "\<not> has_item lats (var_typ w)"
      "store_comprehension lats args (v # vs) acc = Inl (KeyError (Type_key (var_typ w)))"
      using store_comprehension_step [OF e] by simp_all
    then show ?thesis by blast
  next
    case False
    then show ?thesis using fresh_element_unregistered [of lats v args] by simp
  qed
qed

text \<open>
  C7, as amended: when the type of some variable has no entry in the lattice mapping,
  the construction fails with the \<open>ValueError\<close> and returns no store; when moreover the
  arguments answer for every variable's type, as the default \<open>defaultdict\<close> does, the
  type the error names is one without a lattice. When the lattice mapping is complete
  and the arguments answer for every variable's type, the construction returns the
  store that maps exactly the given variables, each to the element its lattice class
  builds from its arguments.
\<close>

theorem Store_init_missing_lattice:
  "((\<exists>v\<in>set variables. \<not> has_item lats (var_typ v)) \<longrightarrow>
      (\<exists>v\<in>set variables.
         Store_init variables lats args = Inl (ValueError_missing_lattice (Type_key (var_typ v)))))
   \<and> ((\<exists>v\<in>set variables. \<not> has_item lats (var_typ v))
        \<and> (\<forall>v\<in>set variables. has_item args (var_typ v)) \<longrightarrow>
      (\<exists>v\<in>set variables. \<not> has_item lats (var_typ v)
         \<and> Store_init variables lats args = Inl (ValueError_missing_lattice (Type_key (var_typ v)))))
   \<and> ((\<forall>v\<in>set variables. has_item lats (var_typ v) \<and> has_item args (var_typ v)) \<longrightarrow>
      (\<exists>s. Store_init variables lats args = Inr s
         \<and> lattices s = lats \<and> arguments s = args
         \<and> dom (store s) = set variables
         \<and> (\<forall>v\<in>set variables. \<exists>cls kwargs.
               getitem lats (var_typ v) = Inr cls \<and> getitem args (var_typ v) = Inr kwargs
               \<and> store s v = Some (cls kwargs))))"
proof (intro conjI impI)
  assume "\<exists>v\<in>set variables. \<not> has_item lats (var_typ v)"
  then show "\<exists>v\<in>set variables.
         Store_init variables lats args = Inl (ValueError_missing_lattice (Type_key (var_typ v)))"
    using store_comprehension_fails [of variables lats args Map.empty]
    by (auto simp: Store_init_def)
next
  assume "(\<exists>v\<in>set variables. \<not> has_item lats (var_typ v))
        \<and> (\<forall>v\<in>set variables. has_item args (var_typ v))"
  then show "\<exists>v\<in>set variables. \<not> has_item lats (var_typ v)
         \<and> Store_init variables lats args = Inl (ValueError_missing_lattice (Type_key (var_typ v)))"
    using store_comprehension_names_missing [of variables lats args Map.empty]
    by (auto simp: Store_init_def)
next
  assume complete: "\<forall>v\<in>set variables. has_item lats (var_typ v) \<and> has_item args (var_typ v)"
  then obtain m where m: "store_comprehension lats args variables Map.empty = Inr m"
    "dom m = set variables"
    "\<forall>v\<in>set variables. fresh_element lats args v = Inr (the (m v))"
    using store_comprehension_complete [of variables lats args Map.empty] by auto
  have "\<forall>v\<in>set variables. \<exists>cls kwargs.
               getitem lats (var_typ v) = Inr cls \<and> getitem args (var_typ v) = Inr kwargs
               \<and> m v = Some (cls kwargs)"
  proof
    fix v assume v: "v \<in> set variables"
    then obtain cls kwargs where "getitem lats (var_typ v) = Inr cls"
      "getitem args (var_typ v) = Inr kwargs" "fresh_element lats args v = Inr (cls kwargs)"
      using fresh_element_registered [of lats v args] complete by blast
    moreover have "m v = Some (the (m v))" using m(2) v by (cases "m v") auto
    ultimately show "\<exists>cls kwargs.
               getitem lats (var_typ v) = Inr cls \<and> getitem args (var_typ v) = Inr kwargs
               \<and> m v = Some (cls kwargs)"
      using m(3) v by auto
  qed
  then show "\<exists>s. Store_init variables lats args = Inr s
         \<and> lattices s = lats \<and> arguments s = args
         \<and> dom (store s) = set variables
         \<and> (\<forall>v\<in>set variables. \<exists>cls kwargs.
               getitem lats (var_typ v) = Inr cls \<and> getitem args (var_typ v) = Inr kwargs
               \<and> store s v = Some (cls kwargs))"
    using m(1,2) by (simp add: Store_init_def)
qed

text \<open>
  The claim as stated looks at the lattice mapping alone. Here the arguments are a plain
  dictionary without entries. With the variable \<open>x\<close> only, the lattice mapping is
  complete, yet the construction fails; with \<open>x\<close> and \<open>y\<close>, the type of \<open>y\<close> is the
  one without a lattice, yet the error names the type of \<open>x\<close>, whose lattice is
  registered.
\<close>

theorem Store_init_plain_arguments_counterexample:
  "has_item example_lattices (var_typ var_x)
   \<and> Store_init [var_x] example_lattices (Dict Map.empty :: Status type_dict)
     = Inl (ValueError_missing_lattice (Type_key IntegerLyraType))
   \<and> has_item example_lattices IntegerLyraType
   \<and> \<not> has_item example_lattices (var_typ var_y)
   \<and> Store_init [var_x, var_y] example_lattices (Dict Map.empty :: Status type_dict)
     = Inl (ValueError_missing_lattice (Type_key IntegerLyraType))"
  by (simp add: Store_init_def fresh_element_def example_lattices_def var_x_def var_y_def)

theorem Store_init_missing_lattice_witness:
  "Store_init [var_x, var_y] example_lattices example_arguments
     = Inl (ValueError_missing_lattice (Type_key (OtherLyraType ''str'')))
   \<and> \<not> has_item example_lattices (OtherLyraType ''str'')
   \<and> Store_init [var_x] example_lattices example_arguments
     = Inr \<lparr>lattices = example_lattices, arguments = example_arguments,
            store = [var_x \<mapsto> TypeLattice_init Status_Any]\<rparr>"
  using Store_init_missing_lattice [of "[var_x, var_y]" example_lattices example_arguments]
    Store_init_missing_lattice [of "[var_x]" example_lattices example_arguments]
  by (simp add: Store_init_def fresh_element_def example_lattices_def example_arguments_def
      var_x_def var_y_def)

text \<open>
  C8, as amended: \<open>add_var\<close> on a tracked variable fails with the \<open>ValueError\<close>; on an
  untracked variable whose type has a lattice and arguments it inserts the element the
  class builds, and on an untracked variable whose type has no lattice it fails with a
  \<open>KeyError\<close>. \<open>remove_var\<close> on an absent variable returns the store as it is, and on
  a present one deletes that entry and no other.
\<close>

theorem add_var_remove_var:
  "(var \<in> dom (store self) \<longrightarrow> add_var self var = Inl ValueError_already_present)
   \<and> (var \<notin> dom (store self) \<and> has_item (lattices self) (var_typ var)
        \<and> has_item (arguments self) (var_typ var) \<longrightarrow>
       (\<exists>cls kwargs. getitem (lattices self) (var_typ var) = Inr cls
          \<and> getitem (arguments self) (var_typ var) = Inr kwargs
          \<and> add_var self var = Inr (self\<lparr>store := (store self)(var \<mapsto> cls kwargs)\<rparr>)))
   \<and> (var \<notin> dom (store self) \<and> \<not> has_item (lattices self) (var_typ var) \<longrightarrow>
       add_var self var = Inl (KeyError (Type_key (var_typ var))))
   \<and> (var \<notin> dom (store self) \<longrightarrow> remove_var self var = self)
   \<and> (var \<in> dom (store self) \<longrightarrow>
       store (remove_var self var) var = None
       \<and> (\<forall>w. w \<noteq> var \<longrightarrow> store (remove_var self var) w = store self w)
       \<and> lattices (remove_var self var) = lattices self
       \<and> arguments (remove_var self var) = arguments self)"
  using fresh_element_registered [of "lattices self" var "arguments self"]
    fresh_element_unregistered [of "lattices self" var "arguments self"]
  by (auto simp: add_var_def remove_var_def)

text \<open>
  The claim as stated promises an insertion for every untracked variable. The variable
  \<open>y\<close> is not tracked and its type has no lattice: \<open>add_var\<close> fails with a \<open>KeyError\<close>.
\<close>

theorem add_var_unregistered_type_counterexample:
  "var_y \<notin> dom (store example_store)
   \<and> add_var example_store var_y = Inl (KeyError (Type_key (OtherLyraType ''str'')))"
  by (simp add: add_var_def fresh_element_def example_store_def example_lattices_def
      var_x_def var_y_def)

theorem add_var_remove_var_witness:
  "add_var example_store var_x = Inl ValueError_already_present
   \<and> add_var example_store var_z
       = Inr (example_store\<lparr>store := (store example_store)(var_z \<mapsto> TypeLattice_init Status_Any)\<rparr>)
   \<and> add_var example_store var_y = Inl (KeyError (Type_key (OtherLyraType ''str'')))
   \<and> remove_var example_store var_z = example_store
   \<and> store (remove_var example_store var_x) var_x = None"
  using add_var_remove_var [of var_x example_store] add_var_remove_var [of var_z example_store]
    add_var_remove_var [of var_y example_store]
  by (simp add: example_store_def example_lattices_def example_arguments_def
      var_x_def var_y_def var_z_def)

text \<open>
  C9: the claim has \<open>add_assumptions_front\<close> return an element on every receiver, top
  and bottom included. On a receiver forced to top or to bottom it fails with a
  \<open>TypeError\<close>: it reads the property \<open>assmps\<close>, which is \<open>None\<close> there, and adds the
  list to it. Its sibling \<open>add_assumption_front\<close> writes to the list \<open>_assmps\<close> itself
  and prepends the leaf on the same receivers.
\<close>

theorem add_assumptions_front_fails_on_top_and_bottom:
  "add_assumptions_front (InputAssumptionLattice_top block_1) [leaf_float_5_20] = Inl TypeError
   \<and> add_assumptions_front (InputAssumptionLattice_bottom block_1) [leaf_float_5_20] = Inl TypeError
   \<and> add_assumption_front (InputAssumptionLattice_top block_1) leaf_float_5_20
     = Inr (IAL TOP (Some 1) [leaf_float_5_20, leaf_int_0_10] False None)
   \<and> add_assumption_front (InputAssumptionLattice_bottom block_1) leaf_float_5_20
     = Inr (IAL BOTTOM (Some 1) [leaf_float_5_20, leaf_int_0_10] False None)
   \<and> add_assumptions_front block_1 [leaf_float_5_20]
     = Inr (IAL DEFAULT (Some 1) [leaf_float_5_20, leaf_int_0_10] False None)"
  by (simp add: add_assumptions_front_def assmps_def block_1_def InputAssumptionLattice_init_def
      leaf_float_5_20_def InputAssumptionLattice_is_bottom_def InputAssumptionLattice_is_top_def)

section \<open>Properties of the join on the heap\<close>

lemma region_bounded:
  "region h a R \<Longrightarrow> a \<in> R \<and> R \<subseteq> {..<next_free h}"
  "regions h xs S \<Longrightarrow> set xs \<subseteq> S \<and> S \<subseteq> {..<next_free h}"
  by (induction rule: region_regions.inducts) auto

lemma region_local:
  "region h a R \<Longrightarrow> (\<forall>p\<in>R. cells h' p = cells h p) \<Longrightarrow> next_free h \<le> next_free h'
     \<Longrightarrow> region h' a R"
  "regions h xs S \<Longrightarrow> (\<forall>p\<in>S. cells h' p = cells h p) \<Longrightarrow> next_free h \<le> next_free h'
     \<Longrightarrow> regions h' xs S"
proof (induction rule: region_regions.inducts)
  case (region_obj a h R)
  then have "regions h' (refs (cells h' a)) R" by simp
  then show ?case using region_obj by (auto intro!: region_regions.region_obj)
next
  case (regions_Nil h)
  then show ?case by (auto intro: region_regions.regions_Nil)
next
  case (regions_Cons h x X xs R)
  then show ?case by (auto intro!: region_regions.regions_Cons)
qed

lemma region_frame:
  assumes "region h a R" and "frame h h' X" and "R \<inter> X = {}"
  shows "region h' a R"
proof -
  have "\<forall>p\<in>R. cells h' p = cells h p"
    using assms region_bounded(1) [OF assms(1)] by (auto simp: frame_def)
  then show ?thesis using region_local(1) [OF assms(1)] assms(2) by (simp add: frame_def)
qed

lemma regions_frame:
  assumes "regions h xs R" and "frame h h' X" and "R \<inter> X = {}"
  shows "regions h' xs R"
proof -
  have "\<forall>p\<in>R. cells h' p = cells h p"
    using assms region_bounded(2) [OF assms(1)] by (auto simp: frame_def)
  then show ?thesis using region_local(2) [OF assms(1)] assms(2) by (simp add: frame_def)
qed

lemma region_inv:
  assumes "region h a R"
  shows "\<exists>S. R = insert a S \<and> regions h (refs (cells h a)) S \<and> a \<notin> S \<and> a < next_free h"
  using assms by (cases rule: region.cases) auto

lemma regions_single:
  "regions h [l] S = region h l S"
proof
  assume "regions h [l] S"
  then show "region h l S" by (auto elim!: regions_ConsE regions_NilE)
next
  assume "region h l S"
  from regions_Cons [OF this regions_Nil] show "regions h [l] S" by simp
qed

lemma region_nested_inv:
  assumes "region h a R" and "cells h a = InputAssumptionLattice_obj k i l il c"
    and "cells h l = list_obj xs"
  shows "\<exists>S. R = insert a (insert l S) \<and> regions h xs S \<and> a \<notin> S \<and> l \<notin> S \<and> a \<noteq> l
           \<and> a < next_free h \<and> l < next_free h"
proof -
  from region_inv [OF assms(1)] obtain L where
    L: "R = insert a L" "region h l L" "a \<notin> L" "a < next_free h"
    using assms(2) by (auto simp: regions_single)
  from region_inv [OF L(2)] obtain S where
    S: "L = insert l S" "regions h xs S" "l \<notin> S" "l < next_free h"
    using assms(3) by auto
  show ?thesis using L S by auto
qed

lemma region_nested:
  assumes "cells h a = InputAssumptionLattice_obj k i l il c" and "cells h l = list_obj xs"
    and "regions h xs S" and "a \<notin> S" and "l \<notin> S" and "a < next_free h" and "l < next_free h"
  shows "region h a (insert a (insert l S))"
proof -
  have "a \<noteq> l" using assms(1,2) by auto
  have "region h l (insert l S)" using assms(2,3,5,7) by (auto intro!: region_obj)
  then have "regions h (refs (cells h a)) (insert l S)" using assms(1) by (simp add: regions_single)
  then show ?thesis using assms(4,6) \<open>a \<noteq> l\<close> by (auto intro!: region_obj)
qed

lemma frame_refl: "frame h h X"
  by (simp add: frame_def)

lemma frame_mono: "frame h h' X \<Longrightarrow> X \<subseteq> Y \<Longrightarrow> frame h h' Y"
  by (auto simp: frame_def)

lemma frame_trans:
  assumes "frame h h1 X1" and "frame h1 h2 X2"
    and "X1 \<inter> {..<next_free h} \<subseteq> X" and "X2 \<inter> {..<next_free h} \<subseteq> X"
  shows "frame h h2 X"
proof -
  have "next_free h \<le> next_free h2" using assms(1,2) by (simp add: frame_def)
  moreover have "cells h2 p = cells h p" if "p < next_free h" "p \<notin> X" for p
  proof -
    have "p \<notin> X1" "p \<notin> X2" using that assms(3,4) by auto
    moreover have "p < next_free h1" using that(1) assms(1) by (simp add: frame_def)
    ultimately show ?thesis using assms(1,2) that(1) by (simp add: frame_def)
  qed
  ultimately show ?thesis by (simp add: frame_def)
qed

lemma frame_put:
  "a \<in> X \<Longrightarrow> frame h (put h a v) X"
  by (simp add: frame_def put_def)

lemma frame_alloc: "alloc h v = (h', a) \<Longrightarrow> frame h h' {}"
  by (auto simp: frame_def alloc_def)

lemma fresh_disjoint: "X \<subseteq> {..<next_free h} \<Longrightarrow> X \<inter> fresh h h' = {}"
  by (fastforce simp: fresh_def)

lemma alloc_region:
  assumes "alloc hm v = (h1, c)" and "regions hm (refs v) C" and "C \<subseteq> fresh h hm"
    and "frame h hm {}"
  shows "frame h h1 {} \<and> region h1 c (insert c C) \<and> insert c C \<subseteq> fresh h h1 \<and> cells h1 c = v"
proof -
  have c: "c = next_free hm" "next_free h1 = Suc (next_free hm)" "cells h1 c = v"
    "\<forall>p. p \<noteq> c \<longrightarrow> cells h1 p = cells hm p"
    using assms(1) by (auto simp: alloc_def)
  have cC: "c \<notin> C" using region_bounded(2) [OF assms(2)] c(1) by auto
  have "\<forall>p\<in>C. cells h1 p = cells hm p" using c(4) cC by auto
  moreover have "next_free hm \<le> next_free h1" using c(2) by simp
  ultimately have "regions h1 (refs v) C" using region_local(2) [OF assms(2), of h1] by blast
  then have "region h1 c (insert c C)" using c cC by (auto intro!: region_obj)
  moreover have "insert c C \<subseteq> fresh h h1"
    using assms(3,4) c by (auto simp: fresh_def frame_def)
  moreover have "frame h h1 {}"
    using assms(4) frame_alloc [OF assms(1)] by (auto simp: frame_def)
  ultimately show ?thesis using c(3) by blast
qed

lemma deepcopy_fresh:
  "deepcopy n h a = Some (h1, c) \<Longrightarrow>
     frame h h1 {} \<and> (\<exists>C. region h1 c C \<and> C \<subseteq> fresh h h1)"
  "deepcopy_list n h xs = Some (h2, xs') \<Longrightarrow>
     frame h h2 {} \<and> (\<exists>C. regions h2 xs' C \<and> C \<subseteq> fresh h h2) \<and> length xs' = length xs"
proof (induction n h a and n h xs arbitrary: h1 c and h2 xs' rule: deepcopy_deepcopy_list.induct)
  case (1 h a)
  then show ?case by simp
next
  case (2 n h a)
  show ?case
  proof (cases "cells h a")
    case (TypeLattice_obj v)
    then have eq: "alloc h (TypeLattice_obj v) = (h1, c)" using 2(5) by simp
    from alloc_region [OF eq, of "{}" h] show ?thesis by (auto simp: frame_refl intro: regions_Nil)
  next
    case (IntervalLattice_obj v)
    then have eq: "alloc h (IntervalLattice_obj v) = (h1, c)" using 2(5) by simp
    from alloc_region [OF eq, of "{}" h] show ?thesis by (auto simp: frame_refl intro: regions_Nil)
  next
    case (AssumptionLattice_obj t r)
    then obtain ha t' hb r' where dt: "deepcopy n h t = Some (ha, t')"
      and dr: "deepcopy n ha r = Some (hb, r')"
      and eq: "alloc hb (AssumptionLattice_obj t' r') = (h1, c)"
      using 2(5) by (auto split: option.splits)
    from 2(1) [OF AssumptionLattice_obj dt] obtain T where
      fr1: "frame h ha {}" and T: "region ha t' T" "T \<subseteq> fresh h ha" by blast
    from 2(2) [OF AssumptionLattice_obj dt refl dr] obtain R where
      fr2: "frame ha hb {}" and R: "region hb r' R" "R \<subseteq> fresh ha hb" by blast
    have "region hb t' T" using region_frame [OF T(1) fr2] by simp
    moreover have "T \<inter> R = {}" using T(2) R(2) by (fastforce simp: fresh_def)
    ultimately have "regions hb [t', r'] (T \<union> R)"
      using regions_Cons [of hb t' T "[r']" R] R(1) by (simp add: regions_single)
    moreover have "T \<union> R \<subseteq> fresh h hb"
      using T(2) R(2) fr1 fr2 by (auto simp: fresh_def frame_def)
    moreover have "frame h hb {}" using fr1 fr2 by (auto simp: frame_def)
    ultimately show ?thesis using alloc_region [OF eq, of "T \<union> R" h] by auto
  next
    case (list_obj xs)
    then obtain hm ys where dl: "deepcopy_list n h xs = Some (hm, ys)"
      and eq: "alloc hm (list_obj ys) = (h1, c)"
      using 2(5) by (auto split: option.splits)
    from 2(3) [OF list_obj dl] obtain C where
      fr: "frame h hm {}" and C: "regions hm ys C" "C \<subseteq> fresh h hm" by blast
    then show ?thesis using alloc_region [OF eq, of C h] by auto
  next
    case (InputAssumptionLattice_obj k i l il cnd)
    then obtain hm l' where dl: "deepcopy n h l = Some (hm, l')"
      and eq: "alloc hm (InputAssumptionLattice_obj k i l' il cnd) = (h1, c)"
      using 2(5) by (auto split: option.splits)
    from 2(4) [OF InputAssumptionLattice_obj dl] obtain C where
      fr: "frame h hm {}" and C: "region hm l' C" "C \<subseteq> fresh h hm" by blast
    then show ?thesis
      using alloc_region [OF eq, of C h] by (auto simp: regions_single)
  qed
next
  case (3 n h)
  then show ?case by (auto simp: frame_def intro: regions_Nil)
next
  case (4 n h x xs)
  from 4(3) obtain hm x' hn xs1 where
    dx: "deepcopy n h x = Some (hm, x')" and dl: "deepcopy_list n hm xs = Some (hn, xs1)"
    and eq: "h2 = hn" "xs' = x' # xs1"
    by (auto split: option.splits)
  from 4(1) [OF dx] obtain X where fr1: "frame h hm {}" and X: "region hm x' X" "X \<subseteq> fresh h hm"
    by blast
  from 4(2) [OF dx refl dl] obtain C where fr2: "frame hm hn {}"
    and C: "regions hn xs1 C" "C \<subseteq> fresh hm hn" "length xs1 = length xs"
    by blast
  have "region hn x' X" using region_frame [OF X(1) fr2] by simp
  moreover have "X \<inter> C = {}" using X(2) C(2) by (fastforce simp: fresh_def)
  ultimately have "regions hn (x' # xs1) (X \<union> C)" using C(1) by (auto intro: regions_Cons)
  moreover have "X \<union> C \<subseteq> fresh h hn"
    using X(2) C(2) fr1 fr2 by (auto simp: fresh_def frame_def)
  moreover have "frame h hn {}" using fr1 fr2 by (auto simp: frame_def)
  ultimately show ?case using eq C(3) by auto
qed

lemma region_put:
  assumes "regions h (refs v) S" and "x \<notin> S" and "x < next_free h"
  shows "region (put h x v) x (insert x S)"
proof -
  let ?h' = "put h x v"
  have "\<forall>p\<in>S. cells ?h' p = cells h p" using assms(2) by (auto simp: put_def)
  moreover have "next_free h \<le> next_free ?h'" by (simp add: put_def)
  ultimately have "regions ?h' (refs v) S" using region_local(2) [OF assms(1)] by blast
  moreover have "cells ?h' x = v" "x < next_free ?h'"
    using assms(3) by (simp_all add: put_def)
  ultimately show ?thesis using assms(2) region_obj [of x ?h' S] by simp
qed

lemma replace_region:
  assumes "region h y Y" and "x \<notin> Y" and "x < next_free h"
  shows "\<exists>X'. region (put h x (cells h y)) x X' \<and> X' \<subseteq> insert x Y"
proof -
  from region_inv [OF assms(1)] obtain S where
    S: "Y = insert y S" "regions h (refs (cells h y)) S" by blast
  then have "x \<notin> S" using assms(2) by simp
  from region_put [OF S(2) this assms(3)] show ?thesis using S(1) by auto
qed

lemma refs_obj_top: "refs (obj_top v) = refs v"
  by (cases v) simp_all

lemma top_region:
  assumes "region h x X"
  shows "region (put h x (obj_top (cells h x))) x X"
proof -
  from region_inv [OF assms] obtain S where
    S: "X = insert x S" "regions h (refs (cells h x)) S" "x \<notin> S" "x < next_free h" by blast
  from region_put [of h "obj_top (cells h x)" S x] S show ?thesis by (simp add: refs_obj_top)
qed

lemma join_spec_unchanged:
  "region h x X \<Longrightarrow> join_spec h x X Y (h, r)"
  by (auto simp: join_spec_def frame_refl)

lemma join_spec_failed:
  "frame h h' X \<Longrightarrow> r \<noteq> Returned \<Longrightarrow> join_spec h x X Y (h', r)"
  by (auto simp: join_spec_def)

lemma join_spec_put:
  assumes "x \<in> X" and "region (put h x v) x X'" and "X' \<subseteq> X \<union> Y"
  shows "join_spec h x X Y (put h x v, r)"
  using assms frame_put [OF assms(1), of h v] by (auto simp: join_spec_def)

lemma join_spec_replace:
  assumes "region h x X" and "region h y Y" and "X \<inter> Y = {}"
  shows "join_spec h x X Y (put h x (cells h y), r)"
proof -
  have x: "x \<in> X" "x < next_free h" using region_bounded(1) [OF assms(1)] by auto
  then have "x \<notin> Y" using assms(3) by auto
  from replace_region [OF assms(2) this x(2)] obtain X' where
    "region (put h x (cells h y)) x X'" "X' \<subseteq> insert x Y" by blast
  then show ?thesis using join_spec_put [OF x(1), of h "cells h y" X' Y r] x(1) by auto
qed

lemma join_spec_top:
  assumes "region h x X"
  shows "join_spec h x X Y (put h x (obj_top (cells h x)), r)"
proof -
  have "x \<in> X" using region_bounded(1) [OF assms] by simp
  from join_spec_put [OF this top_region [OF assms]] show ?thesis by blast
qed

lemma component_join_region:
  assumes "region h c C"
  shows "frame h (fst (component_join_h ops h c c2)) {c}
         \<and> region (fst (component_join_h ops h c c2)) c C"
proof -
  from region_inv [OF assms] obtain S where
    S: "C = insert c S" "regions h (refs (cells h c)) S" "c \<notin> S" "c < next_free h" by blast
  have same: "frame h h {c} \<and> region h c C" using assms by (simp add: frame_refl)
  have written: "frame h (put h c v) {c} \<and> region (put h c v) c C"
    if "refs v = refs (cells h c)" for v
    using region_put [of h v S c] S that by (simp add: frame_put)
  show ?thesis
  proof (cases "cells h c")
    case t1: (TypeLattice_obj t1)
    show ?thesis
    proof (cases "cells h c2")
      case t2: (TypeLattice_obj t2)
      show ?thesis
      proof (cases "TypeLattice_join t1 t2")
        case (Inl e)
        then show ?thesis using t1 t2 same by (simp add: component_join_h_def)
      next
        case (Inr t)
        then show ?thesis using t1 t2 written [of "TypeLattice_obj t"]
          by (simp add: component_join_h_def)
      qed
    qed (use t1 same in \<open>simp_all add: component_join_h_def\<close>)
  next
    case r1: (IntervalLattice_obj r1)
    show ?thesis
    proof (cases "cells h c2")
      case r2: (IntervalLattice_obj r2)
      then show ?thesis using r1 written [of "IntervalLattice_obj (range_join ops r1 r2)"]
        by (simp add: component_join_h_def)
    qed (use r1 same in \<open>simp_all add: component_join_h_def\<close>)
  qed (use same in \<open>simp_all add: component_join_h_def\<close>)
qed

lemma leaf_join_spec:
  assumes x: "region h x X"
  shows "join_spec h x X Y (AssumptionLattice__join_h ops h x y)"
proof (cases "cells h x")
  case cx: (AssumptionLattice_obj t1 r1)
  show ?thesis
  proof (cases "cells h y")
    case cy: (AssumptionLattice_obj t2 r2)
    from region_inv [OF x] obtain S where
      S: "X = insert x S" "regions h [t1, r1] S" "x \<notin> S" "x < next_free h"
      using cx by auto
    from S(2) obtain T R where
      TR: "S = T \<union> R" "region h t1 T" "region h r1 R" "T \<inter> R = {}"
      by (auto elim!: regions_ConsE regions_NilE)
    have tb: "t1 \<in> T" "r1 \<in> R" using region_bounded(1) [OF TR(2)] region_bounded(1) [OF TR(3)] by auto
    obtain h1 o1 where j1: "component_join_h ops h t1 t2 = (h1, o1)"
      by (cases "component_join_h ops h t1 t2")
    from component_join_region [OF TR(2), of ops t2] j1
    have 1: "frame h h1 {t1}" "region h1 t1 T" by simp_all
    have fr1: "frame h h1 X" using frame_mono [OF 1(1)] tb(1) TR(1) S(1) by auto
    show ?thesis
    proof (cases "o1 = Returned")
      case False
      then have "AssumptionLattice__join_h ops h x y = (h1, o1)"
        using cx cy j1 by (cases o1) (simp_all add: AssumptionLattice__join_h_def)
      then show ?thesis using join_spec_failed [OF fr1 False] by simp
    next
      case True
      have r1h1: "region h1 r1 R" using region_frame [OF TR(3) 1(1)] tb(1) TR(4) by auto
      obtain h2 o2 where j2: "component_join_h ops h1 r1 r2 = (h2, o2)"
        by (cases "component_join_h ops h1 r1 r2")
      from component_join_region [OF r1h1, of ops r2] j2
      have 2: "frame h1 h2 {r1}" "region h2 r1 R" by simp_all
      have res: "AssumptionLattice__join_h ops h x y = (h2, o2)"
        using cx cy j1 j2 True by (simp add: AssumptionLattice__join_h_def)
      have "region h2 t1 T" using region_frame [OF 1(2) 2(1)] tb(2) TR(4) by auto
      then have rs: "regions h2 [t1, r1] S"
        using regions_Cons [of h2 t1 T "[r1]" R] 2(2) TR(1,4) by (simp add: regions_single)
      have fr: "frame h h2 X"
        using frame_trans [OF 1(1) 2(1), of X] tb TR(1) S(1) by auto
      have "x \<noteq> t1" "x \<noteq> r1" using tb S(3) TR(1) by auto
      then have "cells h2 x = cells h x"
        using 1(1) 2(1) S(4) by (simp add: frame_def)
      moreover have "x < next_free h2" using fr S(4) by (simp add: frame_def)
      ultimately have "region h2 x X"
        using region_obj [of x h2 S] rs cx S(1,3) by simp
      then show ?thesis using fr res by (auto simp: join_spec_def)
    qed
  qed (use cx join_spec_unchanged [OF x] in \<open>simp_all add: AssumptionLattice__join_h_def\<close>)
qed (use join_spec_unchanged [OF x] in \<open>simp_all add: AssumptionLattice__join_h_def\<close>)

lemma P_join_0: "P_join t 0"
  by (simp add: P_join_def join_spec_def frame_refl)

lemma P_loop_0: "P_loop t 0"
  by (simp add: P_loop_def loop_spec_def frame_refl)

lemma P_join_Suc:
  assumes "P_hook (t :: 'r itself) n"
  shows "P_join t (Suc n)"
  unfolding P_join_def
proof (intro allI impI)
  fix ops :: "'r range_ops" and h :: "'r heap" and x y X Y
  assume x: "region h x X" and y: "region h y Y" and d: "X \<inter> Y = {}"
  have hook: "join_spec h x X Y (InputAssumptionLattice__join_h n ops h x y)"
    using assms x y d by (simp add: P_hook_def)
  show "join_spec h x X Y (join_h (Suc n) ops h x y)"
  proof (cases "is_bottom_h ops h x \<or> is_top_h ops h y")
    case True
    then show ?thesis using join_spec_replace [OF x y d] by simp
  next
    case False
    note nb = this
    show ?thesis
    proof (cases "is_bottom_h ops h y \<or> is_top_h ops h x")
      case True
      then show ?thesis using nb join_spec_unchanged [OF x] by simp
    next
      case False
      show ?thesis
      proof (cases "cells h x")
        case (AssumptionLattice_obj t1 r1)
        then show ?thesis using nb False leaf_join_spec [OF x, of Y ops y] by simp
      next
        case (InputAssumptionLattice_obj k1 i1 l1 il1 c1)
        then show ?thesis using nb False hook by simp
      qed (use nb False join_spec_unchanged [OF x] in simp_all)
    qed
  qed
qed

lemma fresh_trans:
  "frame h h1 X1 \<Longrightarrow> frame h1 h2 X2 \<Longrightarrow> fresh h h1 \<union> fresh h1 h2 = fresh h h2"
  by (auto simp: fresh_def frame_def)

lemma loop_spec_Cons:
  assumes step: "frame h h1 Xx" "region h1 x X1" "X1 \<subseteq> Xx \<union> Yy \<union> fresh h h1"
    and rest: "regions h xs RX" "loop_spec h1 xs RX RY res"
    and bounds: "Xx \<subseteq> {..<next_free h}" "Yy \<subseteq> {..<next_free h}" "RY \<subseteq> {..<next_free h}"
    and disj: "Xx \<inter> RX = {}" "Xx \<inter> RY = {}" "Yy \<inter> RX = {}" "Yy \<inter> RY = {}"
  shows "loop_spec h (x # xs) (Xx \<union> RX) (Yy \<union> RY) res"
proof -
  obtain h' r where res: "res = (h', r)" by (cases res)
  have RXb: "RX \<subseteq> {..<next_free h}" using region_bounded(2) [OF rest(1)] by simp
  have fr2: "frame h1 h' RX" and ns: "r \<noteq> Stopped Returned"
    using rest(2) res by (simp_all add: loop_spec_def)
  have fr: "frame h h' (Xx \<union> RX)"
    using frame_trans [OF step(1) fr2, of "Xx \<union> RX"] by auto
  have le: "next_free h \<le> next_free h1" "next_free h1 \<le> next_free h'"
    using step(1) fr2 by (simp_all add: frame_def)
  have X1b: "X1 \<subseteq> {..<next_free h1}" using region_bounded(1) [OF step(2)] by simp
  have fr_sub: "fresh h h1 \<subseteq> fresh h h'" "fresh h1 h' \<subseteq> fresh h h'"
    using le by (auto simp: fresh_def)
  have X1_RX: "X1 \<inter> RX = {}"
    using step(3) disj(1,3) fresh_disjoint [OF RXb, of h1] by blast
  have "\<exists>X'. regions h' (x # xs) X' \<and> X' \<subseteq> (Xx \<union> RX) \<union> (Yy \<union> RY) \<union> fresh h h'"
    if "r = Finished \<or> r = Top_returned"
  proof -
    from rest(2) res that obtain RX' where
      RX': "regions h' xs RX'" "RX' \<subseteq> RX \<union> RY \<union> fresh h1 h'"
      by (auto simp: loop_spec_def)
    have x': "region h' x X1" using region_frame [OF step(2) fr2 X1_RX] .
    have "X1 \<inter> fresh h1 h' = {}" using fresh_disjoint [OF X1b] .
    moreover have "X1 \<inter> RY = {}"
      using step(3) disj(2,4) fresh_disjoint [OF bounds(3), of h1] by blast
    ultimately have "X1 \<inter> RX' = {}" using X1_RX RX'(2) by blast
    then have "regions h' (x # xs) (X1 \<union> RX')" using x' RX'(1) by (auto intro: regions_Cons)
    moreover have "X1 \<union> RX' \<subseteq> (Xx \<union> RX) \<union> (Yy \<union> RY) \<union> fresh h h'"
      using step(3) RX'(2) fr_sub by blast
    ultimately show ?thesis by blast
  qed
  then show ?thesis using fr ns res by (simp add: loop_spec_def)
qed

lemma P_loop_Suc:
  assumes PJ: "P_join (t :: 'r itself) n" and PL: "P_loop t n"
  shows "P_loop t (Suc n)"
  unfolding P_loop_def
proof (intro allI impI)
  fix ops :: "'r range_ops" and h :: "'r heap" and l1 l2 i xs ys X Y
  assume it: "items_h h l1 = Some xs" "items_h h l2 = Some ys"
    and rx: "regions h (drop i xs) X" and ry: "regions h (drop i ys) Y"
    and d: "X \<inter> Y = {}" and l: "l1 \<notin> X" "l2 \<notin> X" "l1 < next_free h" "l2 < next_free h"
  note loop = join_loop_h.simps(2) [of n ops h l1 l2 i]
  show "loop_spec h (drop i xs) X Y (join_loop_h (Suc n) ops h l1 l2 i)"
  proof (cases "i < length xs \<and> i < length ys")
    case False
    then have "join_loop_h (Suc n) ops h l1 l2 i = (h, Finished)"
      unfolding loop it by (simp only: option.case prod.case if_False)
    then show ?thesis using rx by (auto simp: loop_spec_def frame_refl)
  next
    case True
    define x where "x = xs ! i"
    define y where "y = ys ! i"
    have dx: "drop i xs = x # drop (Suc i) xs" and dy: "drop i ys = y # drop (Suc i) ys"
      using True by (simp_all add: x_def y_def Cons_nth_drop_Suc)
    from rx dx obtain Xx RX where
      X: "X = Xx \<union> RX" "region h x Xx" "regions h (drop (Suc i) xs) RX" "Xx \<inter> RX = {}"
      by (auto elim: regions_ConsE)
    from ry dy obtain Yy RY where
      Y: "Y = Yy \<union> RY" "region h y Yy" "regions h (drop (Suc i) ys) RY" "Yy \<inter> RY = {}"
      by (auto elim: regions_ConsE)
    have xb: "x \<in> Xx" "Xx \<subseteq> {..<next_free h}" using region_bounded(1) [OF X(2)] by auto
    have yb: "Yy \<subseteq> {..<next_free h}" using region_bounded(1) [OF Y(2)] by auto
    have RXb: "RX \<subseteq> {..<next_free h}" using region_bounded(2) [OF X(3)] by simp
    have RYb: "RY \<subseteq> {..<next_free h}" using region_bounded(2) [OF Y(3)] by simp
    have disj: "Xx \<inter> RY = {}" "Yy \<inter> RX = {}" "RX \<inter> RY = {}" "Xx \<inter> Yy = {}"
      using d X(1) Y(1) by auto
    have cont: "loop_spec h (drop i xs) X Y (join_loop_h n ops h1 l1 l2 (Suc i))"
      if step: "frame h h1 Xx" "region h1 x X1" "X1 \<subseteq> Xx \<union> Yy \<union> fresh h h1" for h1 X1
    proof -
      have "l1 \<notin> Xx" "l2 \<notin> Xx" using l(1,2) X(1) by auto
      then have c: "cells h1 l1 = cells h l1" "cells h1 l2 = cells h l2"
        using step(1) l(3,4) by (simp_all add: frame_def)
      have it1: "items_h h1 l1 = Some xs" "items_h h1 l2 = Some ys"
        using it c by (simp_all add: items_h_def)
      have lt: "l1 < next_free h1" "l2 < next_free h1" using l(3,4) step(1) by (auto simp: frame_def)
      have "regions h1 (drop (Suc i) xs) RX" using regions_frame [OF X(3) step(1)] X(4) by auto
      moreover have "regions h1 (drop (Suc i) ys) RY"
        using regions_frame [OF Y(3) step(1)] disj(1) by auto
      moreover have "l1 \<notin> RX" "l2 \<notin> RX" using l(1,2) X(1) by auto
      ultimately have "loop_spec h1 (drop (Suc i) xs) RX RY (join_loop_h n ops h1 l1 l2 (Suc i))"
        using PL [unfolded P_loop_def, rule_format, OF it1 _ _ disj(3) _ _ lt, of "Suc i" ops]
        by blast
      from loop_spec_Cons [OF step X(3) this xb(2) yb RYb X(4) disj(1,2) Y(4)]
      show ?thesis using X(1) Y(1) dx by simp
    qed
    have stop: "loop_spec h (drop i xs) X Y (h1, r)"
      if "frame h h1 Xx" "r \<noteq> Finished" "r \<noteq> Top_returned" "r \<noteq> Stopped Returned" for h1 r
      using that frame_mono [of h h1 Xx X] X(1) by (auto simp: loop_spec_def)
    note start = it True x_def [symmetric] y_def [symmetric]
    show ?thesis
    proof (cases "obj_is_placeholder (cells h x)")
      case px: True
      show ?thesis
      proof (cases "deepcopy n h y")
        case None
        then have "join_loop_h (Suc n) ops h l1 l2 i = (h, Stopped Out_of_fuel)"
          using start px by (simp add: loop)
        then show ?thesis using stop [OF frame_refl, of "Stopped Out_of_fuel"] by simp
      next
        case (Some a)
        then obtain h1 c where dc: "deepcopy n h y = Some (h1, c)" by (cases a) auto
        from deepcopy_fresh(1) [OF dc] obtain C where
          fr1: "frame h h1 {}" and C: "region h1 c C" "C \<subseteq> fresh h h1" by blast
        have "x \<notin> C" using C(2) xb fresh_disjoint [OF xb(2), of h1] by blast
        moreover have "x < next_free h1" using xb fr1 by (auto simp: frame_def)
        ultimately obtain X1 where X1: "region (put h1 x (cells h1 c)) x X1" "X1 \<subseteq> insert x C"
          using replace_region [OF C(1)] by blast
        have "frame h1 (put h1 x (cells h1 c)) Xx" using frame_put [OF xb(1)] .
        then have fr: "frame h (put h1 x (cells h1 c)) Xx"
          using frame_trans [OF fr1, of _ Xx Xx] by auto
        have "fresh h h1 = fresh h (put h1 x (cells h1 c))" by (simp add: fresh_def put_def)
        then have "X1 \<subseteq> Xx \<union> Yy \<union> fresh h (put h1 x (cells h1 c))"
          using X1(2) C(2) xb(1) by auto
        from cont [OF fr X1(1) this] show ?thesis using start px dc by (simp add: loop)
      qed
    next
      case npx: False
      show ?thesis
      proof (cases "obj_is_placeholder (cells h y)")
        case py: True
        have "loop_spec h (drop i xs) X Y (join_loop_h n ops h l1 l2 (Suc i))"
          using cont [OF frame_refl X(2)] by auto
        then show ?thesis using start npx py by (simp add: loop)
      next
        case npy: False
        show ?thesis
        proof (cases "obj_isinstance_InputAssumptionLattice (cells h x)
                        = obj_isinstance_InputAssumptionLattice (cells h y)")
          case same: True
          obtain h1 r where j: "join_h n ops h x y = (h1, r)" by (cases "join_h n ops h x y")
          have spec: "join_spec h x Xx Yy (h1, r)"
            using PJ [unfolded P_join_def, rule_format, OF X(2) Y(2) disj(4), of ops] j by simp
          then have fr: "frame h h1 Xx" by (simp add: join_spec_def)
          show ?thesis
          proof (cases "r = Returned")
            case True
            then obtain X1 where "region h1 x X1" "X1 \<subseteq> Xx \<union> Yy \<union> fresh h h1"
              using spec by (auto simp: join_spec_def)
            from cont [OF fr this] show ?thesis using start npx npy same j True by (simp add: loop)
          next
            case False
            then have "join_loop_h (Suc n) ops h l1 l2 i = (h1, Stopped r)"
              using start npx npy same j by (cases r) (simp_all add: loop)
            then show ?thesis using stop [OF fr, of "Stopped r"] False by simp
          qed
        next
          case False
          have "loop_spec h (drop i xs) X Y (h, Top_returned)"
            using rx by (auto simp: loop_spec_def frame_refl)
          then show ?thesis using start npx npy False by (simp add: loop)
        qed
      qed
    qed
  qed
qed

lemma deepcopy_root:
  assumes "deepcopy n h a = Some (h1, c)"
    and "cells h a = InputAssumptionLattice_obj k i l il cnd"
    and "cells h l = list_obj xs"
  shows "\<exists>l' zs. cells h1 c = InputAssumptionLattice_obj k i l' il cnd
           \<and> cells h1 l' = list_obj zs \<and> length zs = length xs"
proof (cases n)
  case 0
  then show ?thesis using assms by simp
next
  case (Suc m)
  then obtain hm l' where dl: "deepcopy m h l = Some (hm, l')"
    and eq: "alloc hm (InputAssumptionLattice_obj k i l' il cnd) = (h1, c)"
    using assms(1,2) by (auto split: option.splits)
  show ?thesis
  proof (cases m)
    case 0
    then show ?thesis using dl by simp
  next
    case (Suc m')
    then obtain hk zs where dz: "deepcopy_list m' h xs = Some (hk, zs)"
      and eq2: "alloc hk (list_obj zs) = (hm, l')"
      using dl assms(3) by (auto split: option.splits)
    have len: "length zs = length xs" using deepcopy_fresh(2) [OF dz] by simp
    have "cells hm l' = list_obj zs" "l' = next_free hk" "next_free hm = Suc (next_free hk)"
      using eq2 by (auto simp: alloc_def)
    moreover have "c = next_free hm" "cells h1 c = InputAssumptionLattice_obj k i l' il cnd"
      "\<forall>p. p \<noteq> c \<longrightarrow> cells h1 p = cells hm p"
      using eq by (auto simp: alloc_def)
    ultimately have "cells h1 l' = list_obj zs"
      "cells h1 c = InputAssumptionLattice_obj k i l' il cnd" by auto
    then show ?thesis using len by blast
  qed
qed

lemma join_spec_seq:
  assumes "frame h h2 X" and "join_spec h2 x X2 Y2 res"
    and "X2 \<subseteq> X \<union> fresh h h2" and "Y2 \<subseteq> Y \<union> fresh h h2"
  shows "join_spec h x X Y res"
proof -
  obtain h' r where res: "res = (h', r)" by (cases res)
  have fr2: "frame h2 h' X2" using assms(2) res by (simp add: join_spec_def)
  have le: "next_free h \<le> next_free h2" "next_free h2 \<le> next_free h'"
    using assms(1) fr2 by (simp_all add: frame_def)
  have "X2 \<inter> {..<next_free h} \<subseteq> X" using assms(3) by (auto simp: fresh_def)
  then have fr: "frame h h' X" using frame_trans [OF assms(1) fr2, of X] by auto
  have sub: "fresh h h2 \<subseteq> fresh h h'" "fresh h2 h' \<subseteq> fresh h h'"
    using le by (auto simp: fresh_def)
  have "\<exists>X'. region h' x X' \<and> X' \<subseteq> X \<union> Y \<union> fresh h h'" if "r = Returned"
  proof -
    from assms(2) res that obtain X' where "region h' x X'" "X' \<subseteq> X2 \<union> Y2 \<union> fresh h2 h'"
      by (auto simp: join_spec_def)
    then show ?thesis using assms(3,4) sub by blast
  qed
  then show ?thesis using fr res by (simp add: join_spec_def)
qed

lemma join_spec_adopt_copy:
  assumes "region h x X" and "deepcopy n h y = Some (h1, c)"
  shows "join_spec h x X Y (put h1 x (cells h1 c), r)"
proof -
  from deepcopy_fresh(1) [OF assms(2)] obtain C where
    fr1: "frame h h1 {}" and C: "region h1 c C" "C \<subseteq> fresh h h1" by blast
  have xb: "x \<in> X" "X \<subseteq> {..<next_free h}" using region_bounded(1) [OF assms(1)] by auto
  have "x \<notin> C" using C(2) xb fresh_disjoint [OF xb(2), of h1] by blast
  moreover have "x < next_free h1" using xb fr1 by (auto simp: frame_def)
  ultimately obtain X1 where X1: "region (put h1 x (cells h1 c)) x X1" "X1 \<subseteq> insert x C"
    using replace_region [OF C(1)] by blast
  have "frame h1 (put h1 x (cells h1 c)) X" using frame_put [OF xb(1)] .
  then have fr: "frame h (put h1 x (cells h1 c)) X"
    using frame_trans [OF fr1, of _ X X] by auto
  have "fresh h h1 = fresh h (put h1 x (cells h1 c))" by (simp add: fresh_def put_def)
  then have "X1 \<subseteq> X \<union> Y \<union> fresh h (put h1 x (cells h1 c))"
    using X1(2) C(2) xb(1) by auto
  then show ?thesis using fr X1(1) by (auto simp: join_spec_def)
qed

lemma regions_two:
  assumes "regions h xs S" and "1 < length xs"
  shows "\<exists>X0 X1 R. S = X0 \<union> X1 \<union> R \<and> region h (xs ! 0) X0 \<and> region h (xs ! 1) X1
           \<and> regions h (drop 2 xs) R \<and> X0 \<inter> X1 = {} \<and> X0 \<inter> R = {} \<and> X1 \<inter> R = {}"
proof -
  obtain x0 x1 rest where xs: "xs = x0 # x1 # rest"
    using assms(2) by (cases xs; cases "tl xs") auto
  from assms(1) xs obtain X0 S1 where
    1: "S = X0 \<union> S1" "region h x0 X0" "regions h (x1 # rest) S1" "X0 \<inter> S1 = {}"
    by (auto elim: regions_ConsE)
  from 1(3) obtain X1 R where
    2: "S1 = X1 \<union> R" "region h x1 X1" "regions h rest R" "X1 \<inter> R = {}"
    by (auto elim: regions_ConsE)
  show ?thesis using 1 2 xs by (intro exI [of _ X0] exI [of _ X1] exI [of _ R]) auto
qed

lemma pop1_two: "1 < length xs \<Longrightarrow> pop1 xs = xs ! 0 # drop 2 xs"
  by (cases xs; cases "tl xs") (auto simp: pop1_def)

text \<open>The fold on the list \<open>lst\<close> of the object \<open>own\<close>, followed by the deletion of the second element.\<close>

lemma fold_pop_region:
  assumes own: "own \<notin> S" "own < next_free h" "lst \<notin> S" "lst < next_free h"
      "cells h own = InputAssumptionLattice_obj k i lst il c" "cells h lst = list_obj xs"
    and len: "1 < length xs"
    and parts: "S = X0 \<union> X1 \<union> R" "regions h (drop 2 xs) R" "X0 \<inter> R = {}" "X1 \<inter> R = {}"
      "S \<subseteq> {..<next_free h}"
    and step: "frame h h1 X0" "region h1 (xs ! 0) X0'" "X0' \<subseteq> X0 \<union> X1 \<union> fresh h h1"
  shows "cells h1 own = cells h own"
    and "cells h1 lst = cells h lst"
    and "region (put h1 lst (list_obj (pop1 xs))) own (insert own (insert lst (X0' \<union> R)))"
    and "frame h (put h1 lst (list_obj (pop1 xs))) (insert lst S)"
proof -
  let ?h2 = "put h1 lst (list_obj (pop1 xs))"
  have "own \<notin> X0" "lst \<notin> X0" using own(1,3) parts(1) by simp_all
  then show c1: "cells h1 own = cells h own" and c2: "cells h1 lst = cells h lst"
    using step(1) own(2,4) by (simp_all add: frame_def)
  have ne: "own \<noteq> lst" using own(5,6) by auto
  have Rb: "R \<subseteq> {..<next_free h}" using parts(1,5) by auto
  have r1: "regions h1 (drop 2 xs) R"
    using regions_frame [OF parts(2) step(1)] parts(3) by auto
  have "X0' \<inter> R = {}"
    using step(3) parts(3,4) fresh_disjoint [OF Rb, of h1] by blast
  then have "regions h1 (xs ! 0 # drop 2 xs) (X0' \<union> R)"
    using step(2) r1 by (auto intro: regions_Cons)
  then have rs: "regions h1 (refs (list_obj (pop1 xs))) (X0' \<union> R)"
    using pop1_two [OF len] by simp
  have nf: "own \<notin> fresh h h1" "lst \<notin> fresh h h1" using own(2,4) by (simp_all add: fresh_def)
  have notin: "own \<notin> X0' \<union> R" "lst \<notin> X0' \<union> R"
    using nf step(3) own(1,3) parts(1) by blast+
  have lt: "own < next_free h1" "lst < next_free h1" using own(2,4) step(1) by (simp_all add: frame_def)
  have rl: "region ?h2 lst (insert lst (X0' \<union> R))"
    using region_put [OF rs notin(2) lt(2)] .
  have "cells ?h2 own = InputAssumptionLattice_obj k i lst il c"
    using c1 own(5) ne by (simp add: put_def)
  moreover have "own < next_free ?h2" using lt(1) by (simp add: put_def)
  moreover have "own \<notin> insert lst (X0' \<union> R)" using notin(1) ne by simp
  ultimately show "region ?h2 own (insert own (insert lst (X0' \<union> R)))"
    using region_obj [of own ?h2 "insert lst (X0' \<union> R)"] rl by (simp add: regions_single)
  have "frame h1 ?h2 (insert lst S)"
    using frame_put [of lst "insert lst S"] by simp
  then show "frame h ?h2 (insert lst S)"
    using frame_trans [OF step(1), of _ "insert lst S" "insert lst S"] parts(1) by auto
qed

lemma pop_h_eq:
  assumes "cells h own = InputAssumptionLattice_obj DEFAULT i lst il c"
    and "cells h lst = list_obj xs" and "1 < length xs"
  shows "pop_h h own = Inr (put h lst (list_obj (pop1 xs)))"
  using assms by (simp add: pop_h_def assmps_h_def items_h_def)

lemma len_h_eq:
  assumes "cells h own = InputAssumptionLattice_obj DEFAULT i lst il c"
    and "cells h lst = list_obj xs"
  shows "len_h h own = Some (length xs)"
  using assms by (simp add: len_h_def assmps_h_def items_h_def)

lemma hook_self_longer:
  assumes PJ: "P_join (t :: 'r itself) n"
    and x: "region (h :: 'r heap) x X" and y: "region h y Y" and d: "X \<inter> Y = {}"
    and cx: "cells h x = InputAssumptionLattice_obj DEFAULT (Some v) l1 il1 c1"
    and cy: "cells h y = InputAssumptionLattice_obj DEFAULT (Some v) l2 il2 c2"
    and lx: "cells h l1 = list_obj xs" and ly: "cells h l2 = list_obj ys"
    and lens: "length ys < length xs" "0 < length ys"
    and pattern: "obj_is_placeholder (cells h (ys ! 0))"
      "obj_isinstance_InputAssumptionLattice (cells h (xs ! 0))"
      "obj_isinstance_InputAssumptionLattice (cells h (xs ! 1))"
  shows "join_spec h x X Y (InputAssumptionLattice__join_h n ops h x y)"
proof -
  have xb: "x \<in> X" "X \<subseteq> {..<next_free h}" using region_bounded(1) [OF x] by auto
  have yb: "y \<in> Y" "Y \<subseteq> {..<next_free h}" using region_bounded(1) [OF y] by auto
  from region_nested_inv [OF x cx lx] obtain SX where
    SX: "X = insert x (insert l1 SX)" "regions h xs SX" "x \<notin> SX" "l1 \<notin> SX" "x \<noteq> l1"
      "x < next_free h" "l1 < next_free h" by blast
  from region_nested_inv [OF y cy ly] obtain SY where
    SY: "Y = insert y (insert l2 SY)" by blast
  have SXb: "SX \<subseteq> {..<next_free h}" using xb(2) SX(1) by auto
  have len: "1 < length xs" using lens by (cases ys) auto
  from regions_two [OF SX(2) len] obtain X0 X1 R where
    R: "SX = X0 \<union> X1 \<union> R" "region h (xs ! 0) X0" "region h (xs ! 1) X1"
       "regions h (drop 2 xs) R" "X0 \<inter> X1 = {}" "X0 \<inter> R = {}" "X1 \<inter> R = {}"
    by blast
  obtain h1 r where j: "join_h n ops h (xs ! 0) (xs ! 1) = (h1, r)"
    by (cases "join_h n ops h (xs ! 0) (xs ! 1)")
  have spec: "join_spec h (xs ! 0) X0 X1 (h1, r)"
    using PJ [unfolded P_join_def, rule_format, OF R(2,3,5), of ops] j by simp
  then have fr0: "frame h h1 X0" by (simp add: join_spec_def)
  have "X0 \<subseteq> X" using R(1) SX(1) by auto
  then have fr1: "frame h h1 X" using frame_mono [OF fr0] by simp
  have start: "InputAssumptionLattice__join_h n ops h x y =
      (case (h1, r) of
         (h1, Returned) \<Rightarrow>
           (case pop_h h1 x of
              Inl e \<Rightarrow> (h1, Raised e)
            | Inr h2 \<Rightarrow>
                (case (len_h h2 x, len_h h2 y) of
                   (Some m, Some k) \<Rightarrow>
                     if m = k then join_h n ops h2 x y
                     else (h2, Raised AssertionError)
                 | _ \<Rightarrow> (h2, Raised TypeError)))
       | (h1, r) \<Rightarrow> (h1, r))"
    using cx cy lx ly lens pattern j
    by (simp add: InputAssumptionLattice__join_h.simps [of n ops h x y] assmps_h_def items_h_def)
  show ?thesis
  proof (cases "r = Returned")
    case False
    then have "InputAssumptionLattice__join_h n ops h x y = (h1, r)" unfolding start by (cases r) simp_all
    then show ?thesis using join_spec_failed [OF fr1 False] by simp
  next
    case ret: True
    then obtain X0' where X0': "region h1 (xs ! 0) X0'" "X0' \<subseteq> X0 \<union> X1 \<union> fresh h h1"
      using spec by (auto simp: join_spec_def)
    let ?h2 = "put h1 l1 (list_obj (pop1 xs))"
    note fp = fold_pop_region [OF SX(3,6,4,7) cx lx len R(1,4,6,7) SXb fr0 X0']
    have cell1: "cells h1 x = InputAssumptionLattice_obj DEFAULT (Some v) l1 il1 c1"
      "cells h1 l1 = list_obj xs"
      using fp(1,2) cx lx by simp_all
    have "insert l1 SX \<subseteq> X" using SX(1) by auto
    from frame_mono [OF fp(4) this] have fr2: "frame h ?h2 X" .
    have "y < next_free h" "l2 < next_free h" "y \<notin> X" "l2 \<notin> X"
      using yb SY d by auto
    then have "cells ?h2 y = cells h y" "cells ?h2 l2 = cells h l2"
      using fr2 by (simp_all add: frame_def)
    then have leny: "len_h ?h2 y = Some (length ys)" using len_h_eq [of ?h2 y] cy ly by simp
    have "cells ?h2 x = InputAssumptionLattice_obj DEFAULT (Some v) l1 il1 c1"
      "cells ?h2 l1 = list_obj (pop1 xs)"
      using cell1(1) SX(5) by (simp_all add: put_def)
    then have lenx: "len_h ?h2 x = Some (length (pop1 xs))" using len_h_eq [of ?h2 x] by simp
    have mid: "InputAssumptionLattice__join_h n ops h x y =
        (if length (pop1 xs) = length ys then join_h n ops ?h2 x y
         else (?h2, Raised AssertionError))"
      unfolding start using ret pop_h_eq [OF cell1 len] lenx leny by simp
    show ?thesis
    proof (cases "length (pop1 xs) = length ys")
      case False
      then show ?thesis
        unfolding mid using join_spec_failed [OF fr2, of "Raised AssertionError"] by simp
    next
      case eq: True
      have ry: "region ?h2 y Y" using region_frame [OF y fr2] d by auto
      have "fresh h ?h2 = fresh h h1" by (simp add: fresh_def put_def)
      then have sub: "insert x (insert l1 (X0' \<union> R)) \<subseteq> X \<union> fresh h ?h2"
        using X0'(2) R(1) SX(1) by auto
      have "Y \<inter> fresh h ?h2 = {}" using fresh_disjoint [OF yb(2)] .
      then have "insert x (insert l1 (X0' \<union> R)) \<inter> Y = {}" using sub d by blast
      from PJ [unfolded P_join_def, rule_format, OF fp(3) ry this, of ops]
      have "join_spec ?h2 x (insert x (insert l1 (X0' \<union> R))) Y (join_h n ops ?h2 x y)" .
      from join_spec_seq [OF fr2 this sub, of Y] show ?thesis unfolding mid using eq by simp
    qed
  qed
qed

lemma hook_other_longer:
  assumes PJ: "P_join (t :: 'r itself) n"
    and x: "region (h :: 'r heap) x X" and y: "region h y Y" and d: "X \<inter> Y = {}"
    and cx: "cells h x = InputAssumptionLattice_obj DEFAULT (Some v) l1 il1 c1"
    and cy: "cells h y = InputAssumptionLattice_obj DEFAULT (Some v) l2 il2 c2"
    and lx: "cells h l1 = list_obj xs" and ly: "cells h l2 = list_obj ys"
    and lens: "length xs < length ys" "0 < length xs"
    and pattern: "obj_is_placeholder (cells h (xs ! 0))"
      "obj_isinstance_InputAssumptionLattice (cells h (ys ! 0))"
      "obj_isinstance_InputAssumptionLattice (cells h (ys ! 1))"
  shows "join_spec h x X Y (InputAssumptionLattice__join_h n ops h x y)"
proof (cases "deepcopy n h y")
  case None
  have "InputAssumptionLattice__join_h n ops h x y = (h, Out_of_fuel)"
    using cx cy lx ly lens pattern None
    by (simp add: InputAssumptionLattice__join_h.simps [of n ops h x y] assmps_h_def items_h_def)
  then show ?thesis using join_spec_unchanged [OF x] by simp
next
  case (Some a)
  then obtain h1 oc where dc: "deepcopy n h y = Some (h1, oc)" by (cases a) auto
  have xb: "x \<in> X" "X \<subseteq> {..<next_free h}" using region_bounded(1) [OF x] by auto
  from region_nested_inv [OF x cx lx] obtain SX where
    SX: "X = insert x (insert l1 SX)" "x \<noteq> l1" "x < next_free h" "l1 < next_free h" by blast
  from deepcopy_fresh(1) [OF dc] obtain C where
    frc: "frame h h1 {}" and C: "region h1 oc C" "C \<subseteq> fresh h h1" by blast
  from deepcopy_root [OF dc cy ly] obtain lc zs where
    zs: "cells h1 oc = InputAssumptionLattice_obj DEFAULT (Some v) lc il2 c2"
        "cells h1 lc = list_obj zs" "length zs = length ys"
    by blast
  from region_nested_inv [OF C(1) zs(1,2)] obtain SC where
    SC: "C = insert oc (insert lc SC)" "regions h1 zs SC" "oc \<notin> SC" "lc \<notin> SC" "oc \<noteq> lc"
      "oc < next_free h1" "lc < next_free h1" by blast
  have SCb: "SC \<subseteq> {..<next_free h1}" using region_bounded(2) [OF SC(2)] by simp
  have len: "1 < length zs" using lens zs(3) by (cases xs) auto
  from regions_two [OF SC(2) len] obtain C0 C1 CR where
    R: "SC = C0 \<union> C1 \<union> CR" "region h1 (zs ! 0) C0" "region h1 (zs ! 1) C1"
       "regions h1 (drop 2 zs) CR" "C0 \<inter> C1 = {}" "C0 \<inter> CR = {}" "C1 \<inter> CR = {}"
    by blast
  obtain h2 r where j: "join_h n ops h1 (zs ! 0) (zs ! 1) = (h2, r)"
    by (cases "join_h n ops h1 (zs ! 0) (zs ! 1)")
  have spec: "join_spec h1 (zs ! 0) C0 C1 (h2, r)"
    using PJ [unfolded P_join_def, rule_format, OF R(2,3,5), of ops] j by simp
  then have fr0: "frame h1 h2 C0" by (simp add: join_spec_def)
  have Cold: "C \<inter> {..<next_free h} = {}" using C(2) by (auto simp: fresh_def)
  have "C0 \<subseteq> C" using R(1) SC(1) by auto
  then have "C0 \<inter> {..<next_free h} \<subseteq> {}" using Cold by auto
  then have "frame h h2 {}" using frame_trans [OF frc fr0, of "{}"] by simp
  then have fr1: "frame h h2 X" using frame_mono by blast
  have start: "InputAssumptionLattice__join_h n ops h x y =
      (case (h2, r) of
         (h2, Returned) \<Rightarrow>
           (case pop_h h2 oc of
              Inl e \<Rightarrow> (h2, Raised e)
            | Inr h3 \<Rightarrow>
                (case (len_h h3 x, len_h h3 oc) of
                   (Some m, Some k) \<Rightarrow>
                     if m = k then join_h n ops h3 x oc
                     else (h3, Raised AssertionError)
                 | _ \<Rightarrow> (h3, Raised TypeError)))
       | (h2, r) \<Rightarrow> (h2, r))"
    using cx cy lx ly lens pattern dc zs(1,2) j
    by (simp add: InputAssumptionLattice__join_h.simps [of n ops h x y] assmps_h_def items_h_def)
  show ?thesis
  proof (cases "r = Returned")
    case False
    then have "InputAssumptionLattice__join_h n ops h x y = (h2, r)" unfolding start by (cases r) simp_all
    then show ?thesis using join_spec_failed [OF fr1 False] by simp
  next
    case ret: True
    then obtain C0' where C0': "region h2 (zs ! 0) C0'" "C0' \<subseteq> C0 \<union> C1 \<union> fresh h1 h2"
      using spec by (auto simp: join_spec_def)
    let ?h3 = "put h2 lc (list_obj (pop1 zs))"
    note fp = fold_pop_region [OF SC(3,6,4,7) zs(1,2) len R(1,4,6,7) SCb fr0 C0']
    have cell2: "cells h2 oc = InputAssumptionLattice_obj DEFAULT (Some v) lc il2 c2"
      "cells h2 lc = list_obj zs"
      using fp(1,2) zs(1,2) by simp_all
    have "insert lc SC \<subseteq> C" using SC(1) by auto
    from frame_mono [OF fp(4) this] have "frame h1 ?h3 C" .
    then have fr3e: "frame h ?h3 {}" using frame_trans [OF frc, of ?h3 C "{}"] Cold by simp
    then have fr3: "frame h ?h3 X" using frame_mono by blast
    have "cells ?h3 x = cells h x" "cells ?h3 l1 = cells h l1"
      using fr3e SX(3,4) by (simp_all add: frame_def)
    then have lenx: "len_h ?h3 x = Some (length xs)" using len_h_eq [of ?h3 x] cx lx by simp
    have "cells ?h3 oc = InputAssumptionLattice_obj DEFAULT (Some v) lc il2 c2"
      "cells ?h3 lc = list_obj (pop1 zs)"
      using cell2(1) SC(5) by (simp_all add: put_def)
    then have lenc: "len_h ?h3 oc = Some (length (pop1 zs))" using len_h_eq [of ?h3 oc] by simp
    have mid: "InputAssumptionLattice__join_h n ops h x y =
        (if length xs = length (pop1 zs) then join_h n ops ?h3 x oc
         else (?h3, Raised AssertionError))"
      unfolding start using ret pop_h_eq [OF cell2 len] lenx lenc by simp
    show ?thesis
    proof (cases "length xs = length (pop1 zs)")
      case False
      then show ?thesis
        unfolding mid using join_spec_failed [OF fr3, of "Raised AssertionError"] by simp
    next
      case eq: True
      have rx: "region ?h3 x X" using region_frame [OF x fr3e] by simp
      have le: "next_free h \<le> next_free h1" "next_free h1 \<le> next_free h2"
        using frc fr0 by (simp_all add: frame_def)
      have "fresh h h1 \<subseteq> fresh h ?h3" "fresh h1 h2 \<subseteq> fresh h ?h3"
        using le by (auto simp: fresh_def put_def)
      then have sub: "insert oc (insert lc (C0' \<union> CR)) \<subseteq> fresh h ?h3"
        using C0'(2) R(1) SC(1) C(2) by blast
      have "X \<inter> fresh h ?h3 = {}" using fresh_disjoint [OF xb(2)] .
      then have "X \<inter> insert oc (insert lc (C0' \<union> CR)) = {}" using sub by blast
      from PJ [unfolded P_join_def, rule_format, OF rx fp(3) this, of ops]
      have "join_spec ?h3 x X (insert oc (insert lc (C0' \<union> CR))) (join_h n ops ?h3 x oc)" .
      from join_spec_seq [OF fr3 this, of Y] sub show ?thesis unfolding mid using eq by auto
    qed
  qed
qed

lemma hook_equal_length:
  assumes PL: "P_loop (t :: 'r itself) n"
    and x: "region (h :: 'r heap) x X" and y: "region h y Y" and d: "X \<inter> Y = {}"
    and cx: "cells h x = InputAssumptionLattice_obj DEFAULT (Some v) l1 il1 c1"
    and cy: "cells h y = InputAssumptionLattice_obj DEFAULT (Some v) l2 il2 c2"
    and lx: "cells h l1 = list_obj xs" and ly: "cells h l2 = list_obj ys"
    and lens: "length xs = length ys"
  shows "join_spec h x X Y (InputAssumptionLattice__join_h n ops h x y)"
proof -
  have xb: "x \<in> X" "X \<subseteq> {..<next_free h}" using region_bounded(1) [OF x] by auto
  from region_nested_inv [OF x cx lx] obtain SX where
    SX: "X = insert x (insert l1 SX)" "regions h xs SX" "x \<notin> SX" "l1 \<notin> SX" "x \<noteq> l1"
      "x < next_free h" "l1 < next_free h" by blast
  from region_nested_inv [OF y cy ly] obtain SY where
    SY: "Y = insert y (insert l2 SY)" "regions h ys SY" "y \<notin> SY" "l2 \<notin> SY" "y \<noteq> l2"
      "y < next_free h" "l2 < next_free h" by blast
  have dS: "SX \<inter> SY = {}" "l2 \<notin> SX" "x \<notin> SY" "l1 \<notin> SY"
    using d SX(1) SY(1) by auto
  have it: "items_h h l1 = Some xs" "items_h h l2 = Some ys"
    using lx ly by (simp_all add: items_h_def)
  obtain h1 r where l: "join_loop_h n ops h l1 l2 0 = (h1, r)"
    by (cases "join_loop_h n ops h l1 l2 0")
  have "loop_spec h (drop 0 xs) SX SY (join_loop_h n ops h l1 l2 0)"
    using PL [unfolded P_loop_def, rule_format, OF it, of 0 SX SY ops] SX(2,4,7) SY(2,7) dS(1,2)
    by simp
  then have spec: "loop_spec h xs SX SY (h1, r)" using l by simp
  then have fr0: "frame h h1 SX" by (simp add: loop_spec_def)
  have "SX \<subseteq> X" using SX(1) by auto
  from frame_mono [OF fr0 this] have fr: "frame h h1 X" .
  have cell: "cells h1 x = cells h x" "cells h1 l1 = cells h l1"
    using fr0 SX(3,4,6,7) by (simp_all add: frame_def)
  have start: "InputAssumptionLattice__join_h n ops h x y =
      (case (h1, r) of
         (h1, Finished) \<Rightarrow> (h1, Returned)
       | (h1, Top_returned) \<Rightarrow> (put h1 x (obj_top (cells h1 x)), Returned)
       | (h1, Stopped r) \<Rightarrow> (h1, r))"
    using cx cy lx ly lens l
    by (simp add: InputAssumptionLattice__join_h.simps [of n ops h x y] assmps_h_def items_h_def)
  have reg: "\<exists>X'. region h1 x X' \<and> X' \<subseteq> X \<union> Y \<union> fresh h h1"
    if "r = Finished \<or> r = Top_returned"
  proof -
    from spec that obtain S' where
      S': "regions h1 xs S'" "S' \<subseteq> SX \<union> SY \<union> fresh h h1"
      by (auto simp: loop_spec_def)
    have "x \<notin> fresh h h1" "l1 \<notin> fresh h h1" using SX(6,7) by (simp_all add: fresh_def)
    then have "x \<notin> S'" "l1 \<notin> S'" using S'(2) SX(3,4) dS(3,4) by blast+
    moreover have "x < next_free h1" "l1 < next_free h1" using SX(6,7) fr0 by (simp_all add: frame_def)
    ultimately have "region h1 x (insert x (insert l1 S'))"
      using region_nested [of h1 x DEFAULT "Some v" l1 il1 c1 xs S'] S'(1) cell cx lx by simp
    moreover have "insert x (insert l1 S') \<subseteq> X \<union> Y \<union> fresh h h1"
      using S'(2) SX(1) SY(1) by auto
    ultimately show ?thesis by blast
  qed
  show ?thesis
  proof (cases r)
    case Finished
    then have "InputAssumptionLattice__join_h n ops h x y = (h1, Returned)" unfolding start by simp
    then show ?thesis using fr reg Finished by (simp add: join_spec_def)
  next
    case Top_returned
    then obtain X' where X': "region h1 x X'" "X' \<subseteq> X \<union> Y \<union> fresh h h1"
      using reg by blast
    let ?h2 = "put h1 x (obj_top (cells h1 x))"
    have "region ?h2 x X'" using top_region [OF X'(1)] .
    moreover have "fresh h ?h2 = fresh h h1" by (simp add: fresh_def put_def)
    moreover have "frame h ?h2 X"
      using frame_trans [OF fr frame_put [OF xb(1)], of X] by auto
    ultimately have "join_spec h x X Y (?h2, Returned)"
      using X'(2) by (auto simp: join_spec_def)
    moreover have "InputAssumptionLattice__join_h n ops h x y = (?h2, Returned)" unfolding start using Top_returned by simp
    ultimately show ?thesis by simp
  next
    case (Stopped r')
    then have "r' \<noteq> Returned" using spec by (simp add: loop_spec_def)
    from join_spec_failed [OF fr this]
    show ?thesis unfolding start using Stopped by simp
  qed
qed

lemma P_hook_step:
  assumes PJ: "P_join (t :: 'r itself) n" and PL: "P_loop t n"
  shows "P_hook t n"
  unfolding P_hook_def
proof (intro allI impI)
  fix ops :: "'r range_ops" and h :: "'r heap" and x y X Y
  assume x: "region h x X" and y: "region h y Y" and d: "X \<inter> Y = {}"
  note unchanged = join_spec_unchanged [OF x, of Y]
  note to_top = join_spec_top [OF x, of Y]
  note hook = InputAssumptionLattice__join_h.simps [of n ops h x y]
  show "join_spec h x X Y (InputAssumptionLattice__join_h n ops h x y)"
  proof (cases "cells h x")
    case cx: (InputAssumptionLattice_obj k1 i1 l1 il1 c1)
    show ?thesis
    proof (cases "cells h y")
      case cy: (InputAssumptionLattice_obj k2 i2 l2 il2 c2)
      consider (other_unresolved) "i2 = None"
        | (self_unresolved) v2 where "i2 = Some v2" "i1 = None"
        | (differ) v1 v2 where "i1 = Some v1" "i2 = Some v2" "v1 \<noteq> v2"
        | (masked) v where "i1 = Some v" "i2 = Some v" "k1 \<noteq> DEFAULT \<or> k2 \<noteq> DEFAULT"
        | (same) v where "i1 = Some v" "i2 = Some v" "k1 = DEFAULT" "k2 = DEFAULT"
        by (cases i1; cases i2) auto
      then show ?thesis
      proof cases
        case other_unresolved
        then show ?thesis using cx cy unchanged by (simp add: hook)
      next
        case self_unresolved
        show ?thesis
        proof (cases "deepcopy n h y")
          case None
          then show ?thesis using cx cy self_unresolved unchanged by (simp add: hook)
        next
          case (Some a)
          then obtain h1 c where dc: "deepcopy n h y = Some (h1, c)" by (cases a) auto
          from join_spec_adopt_copy [OF x dc, of Y Returned]
          show ?thesis using cx cy self_unresolved dc by (simp add: hook)
        qed
      next
        case differ
        then show ?thesis using cx cy to_top by (simp add: hook)
      next
        case masked
        then show ?thesis using cx cy unchanged
          by (cases k1; cases k2) (simp_all add: hook assmps_h_def)
      next
        case same
        note cx' = cx [unfolded same]
        note cy' = cy [unfolded same]
        show ?thesis
        proof (cases "cells h l1")
          case lx: (list_obj xs)
          show ?thesis
          proof (cases "cells h l2")
            case ly: (list_obj ys)
            consider (equal) "length xs = length ys"
              | (self_longer) "length ys < length xs" "0 < length ys"
                  "obj_is_placeholder (cells h (ys ! 0))"
                  "obj_isinstance_InputAssumptionLattice (cells h (xs ! 0))"
                  "obj_isinstance_InputAssumptionLattice (cells h (xs ! 1))"
              | (other_longer) "length xs < length ys" "0 < length xs"
                  "obj_is_placeholder (cells h (xs ! 0))"
                  "obj_isinstance_InputAssumptionLattice (cells h (ys ! 0))"
                  "obj_isinstance_InputAssumptionLattice (cells h (ys ! 1))"
              | (neither) "InputAssumptionLattice__join_h n ops h x y = (put h x (obj_top (cells h x)), Returned)"
            proof -
              have "InputAssumptionLattice__join_h n ops h x y = (put h x (obj_top (cells h x)), Returned)"
                if "length xs \<noteq> length ys"
                  and "\<not> (length ys < length xs \<and> 0 < length ys
                    \<and> obj_is_placeholder (cells h (ys ! 0))
                    \<and> obj_isinstance_InputAssumptionLattice (cells h (xs ! 0))
                    \<and> obj_isinstance_InputAssumptionLattice (cells h (xs ! 1)))"
                  and "\<not> (length xs < length ys \<and> 0 < length xs
                    \<and> obj_is_placeholder (cells h (xs ! 0))
                    \<and> obj_isinstance_InputAssumptionLattice (cells h (ys ! 0))
                    \<and> obj_isinstance_InputAssumptionLattice (cells h (ys ! 1)))"
                using that cx' cy' lx ly
                by (auto simp add: hook assmps_h_def items_h_def)
              then show ?thesis using that by blast
            qed
            then show ?thesis
            proof cases
              case equal
              from hook_equal_length [OF PL x y d cx' cy' lx ly equal] show ?thesis .
            next
              case self_longer
              from hook_self_longer [OF PJ x y d cx' cy' lx ly self_longer] show ?thesis .
            next
              case other_longer
              from hook_other_longer [OF PJ x y d cx' cy' lx ly other_longer] show ?thesis .
            next
              case neither
              then show ?thesis using to_top by simp
            qed
          qed (use cx' cy' lx unchanged in \<open>simp_all add: hook assmps_h_def items_h_def\<close>)
        qed (use cx' cy' unchanged in \<open>simp_all add: hook assmps_h_def items_h_def\<close>)
      qed
    qed (use cx unchanged in \<open>simp_all add: hook\<close>)
  qed (use unchanged in \<open>simp_all add: hook\<close>)
qed

lemma P_all: "P_join (t :: 'r itself) n \<and> P_loop t n"
proof (induction n)
  case 0
  show ?case using P_join_0 P_loop_0 by blast
next
  case (Suc n)
  then have "P_hook t n" using P_hook_step by blast
  then show ?case using Suc P_join_Suc P_loop_Suc by blast
qed

lemma region_no_refs:
  "a < next_free h \<Longrightarrow> refs (cells h a) = [] \<Longrightarrow> region h a {a}"
  using region_obj [of a h "{}"] regions_Nil [of h] by simp

lemma region_leaf:
  assumes "cells h a = AssumptionLattice_obj t r"
    and "refs (cells h t) = []" and "refs (cells h r) = []"
    and "a < next_free h" and "t < next_free h" and "r < next_free h"
    and "t \<noteq> r" and "a \<noteq> t" and "a \<noteq> r"
  shows "region h a {a, t, r}"
proof -
  have "region h t {t}" "region h r {r}"
    using region_no_refs assms(2,3,5,6) by blast+
  then have "regions h [t, r] ({t} \<union> {r})"
    using regions_Cons [of h t "{t}" "[r]" "{r}"] assms(7) by (simp add: regions_single)
  then have "regions h (refs (cells h a)) {t, r}" using assms(1) by (simp add: insert_commute)
  then show ?thesis using region_obj [of a h "{t, r}"] assms(4,8,9) by simp
qed


lemma example_heap_receiver: "region example_heap 0 {0, 1, 2, 3}"
proof -
  let ?h = example_heap
  have c: "cells ?h 0 = InputAssumptionLattice_obj DEFAULT (Some 1) 1 False None"
    "cells ?h 1 = list_obj [2]"
    "cells ?h 2 = InputAssumptionLattice_obj DEFAULT None 3 False None"
    "cells ?h 3 = list_obj []" "next_free ?h = 16"
    by (simp_all add: example_heap_def heap_of_def)
  have "regions ?h [] {}" by (rule regions_Nil)
  from region_nested [OF c(3,4) this] have "region ?h 2 {2, 3}" using c(5) by simp
  then have "regions ?h [2] {2, 3}" by (simp add: regions_single)
  from region_nested [OF c(1,2) this] show ?thesis using c(5) by simp
qed

lemma example_heap_argument:
  "region example_heap 4 {4, 5, 6, 7, 8, 9, 10, 11, 12, 13, 14, 15}"
proof -
  let ?h = example_heap
  have c: "cells ?h 4 = InputAssumptionLattice_obj DEFAULT (Some 1) 5 False None"
    "cells ?h 5 = list_obj [6, 11]"
    "cells ?h 6 = InputAssumptionLattice_obj DEFAULT (Some 1) 7 False None"
    "cells ?h 7 = list_obj [8]"
    "cells ?h 8 = AssumptionLattice_obj 9 10"
    "cells ?h 11 = InputAssumptionLattice_obj DEFAULT (Some 1) 12 False None"
    "cells ?h 12 = list_obj [13]"
    "cells ?h 13 = AssumptionLattice_obj 14 15"
    and r: "refs (cells ?h 9) = []" "refs (cells ?h 10) = []"
    "refs (cells ?h 14) = []" "refs (cells ?h 15) = []"
    and n: "next_free ?h = 16"
    by (simp_all add: example_heap_def heap_of_def)
  have "region ?h 8 {8, 9, 10}" using region_leaf [OF c(5) r(1,2)] n by simp
  then have "regions ?h [8] {8, 9, 10}" by (simp add: regions_single)
  from region_nested [OF c(3,4) this] have 1: "region ?h 6 {6, 7, 8, 9, 10}" using n by simp
  have "region ?h 13 {13, 14, 15}" using region_leaf [OF c(8) r(3,4)] n by simp
  then have "regions ?h [13] {13, 14, 15}" by (simp add: regions_single)
  from region_nested [OF c(6,7) this] have 2: "region ?h 11 {11, 12, 13, 14, 15}" using n by simp
  then have "regions ?h [11] {11, 12, 13, 14, 15}" by (simp add: regions_single)
  from regions_Cons [OF 1 this]
  have "regions ?h [6, 11] ({6, 7, 8, 9, 10} \<union> {11, 12, 13, 14, 15})" by simp
  from region_nested [OF c(1,2) this] show ?thesis using n by (simp add: insert_commute)
qed



text \<open>
  Why the receiver has to be a tree: here receiver and argument share no object, but
  the list of the receiver holds the same bottom leaf twice. At the first position the
  leaf adopts the content of the first leaf of the argument and with it the references
  to its components; at the second position it is joined in place, which changes the
  type component of the first leaf of the argument from \<open>Int\<close> to \<open>Float\<close>.
\<close>

lemma repeated_leaf_example:
  "cells repeated_heap 1 = list_obj [2, 2]
   \<and> cells repeated_heap 6 = list_obj [7, 10]
   \<and> cells repeated_heap 7 = AssumptionLattice_obj 8 9
   \<and> snd (join_h 10 interval_ops repeated_heap 0 5) = Returned
   \<and> cells repeated_heap 8 = TypeLattice_obj (TypeLattice_init Status_Int)
   \<and> cells (fst (join_h 10 interval_ops repeated_heap 0 5)) 8
        = TypeLattice_obj (TypeLattice_init Status_Float)"
  by code_simp

end
